theory Spec2Isabelle
  imports Main
begin

section \<open>Values of the generic attributed tree\<close>

text \<open>
  The XML parser delivers every document as a JavaScript value: strings, plain objects
  (element and attribute names to values, in insertion order) and arrays (repeated
  elements). The engine itself adds \<open>undefined\<close>, \<open>null\<close> and properties stored on
  arrays. An object is an association list of its own properties; an array carries its
  elements and the named properties assigned to it.

  Scope of the embedding: property names are element and attribute names. The names that
  JavaScript resolves through a built-in prototype (\<open>constructor\<close>, \<open>toString\<close>, ...) and
  the \<open>length\<close> property are not modelled; the enumeration order of integer-like keys of
  an object is not modelled either (keys are kept in insertion order). Strings are lists
  of 8-bit characters. Trees are values: the nodes of two trees are not shared.
\<close>

datatype jsval =
    Undef
  | Null
  | Str string
  | Arr "jsval list" "(string \<times> jsval) list"
  | Obj "(string \<times> jsval) list"

text \<open>
  An exception carries its message, which the patch engine copies into the operation and
  into the conflict it records. The messages are those of the engine the server runs on
  (V8, Node 20); a property name or a string is printed between single quotes.
\<close>

datatype jserror = TypeError string | SyntaxError string

definition quoted :: "string \<Rightarrow> string" where
  "quoted s = CHR 0x27 # s @ [CHR 0x27]"

fun message :: "jserror \<Rightarrow> string" where
  "message (TypeError m) = m"
| "message (SyntaxError m) = m"

text \<open>Truthiness (\<open>!v\<close>, \<open>a || b\<close>, \<open>if (v)\<close>).\<close>

fun truthy :: "jsval \<Rightarrow> bool" where
  "truthy Undef = False"
| "truthy Null = False"
| "truthy (Str s) = (s \<noteq> [])"
| "truthy (Arr xs ps) = True"
| "truthy (Obj ps) = True"

definition jsOr :: "jsval \<Rightarrow> jsval \<Rightarrow> jsval" where
  "jsOr a b = (if truthy a then a else b)"

text \<open>\<open>typeof v === 'object'\<close> holds of objects, arrays and \<open>null\<close>.\<close>

fun typeofObject :: "jsval \<Rightarrow> bool" where
  "typeofObject Null = True"
| "typeofObject (Arr xs ps) = True"
| "typeofObject (Obj ps) = True"
| "typeofObject v = False"

fun isArray :: "jsval \<Rightarrow> bool" where
  "isArray (Arr xs ps) = True"
| "isArray v = False"

subsection \<open>Insertion-ordered maps\<close>

text \<open>
  A JavaScript \<open>Map\<close> and the own properties of an object keep their keys in insertion
  order: \<open>set\<close> on a present key replaces the value in place, on an absent key appends.
\<close>

fun mget :: "('k \<times> 'v) list \<Rightarrow> 'k \<Rightarrow> 'v option" where
  "mget [] k = None"
| "mget ((k', v) # m) k = (if k' = k then Some v else mget m k)"

fun mset :: "'k \<Rightarrow> 'v \<Rightarrow> ('k \<times> 'v) list \<Rightarrow> ('k \<times> 'v) list" where
  "mset k v [] = [(k, v)]"
| "mset k v ((k', v') # m) = (if k' = k then (k, v) # m else (k', v') # mset k v m)"

definition mhas :: "('k \<times> 'v) list \<Rightarrow> 'k \<Rightarrow> bool" where
  "mhas m k = (mget m k \<noteq> None)"

definition mdelete :: "'k \<Rightarrow> ('k \<times> 'v) list \<Rightarrow> ('k \<times> 'v) list" where
  "mdelete k m = filter (\<lambda>kv. fst kv \<noteq> k) m"

subsection \<open>Array indices\<close>

text \<open>
  A property name addresses an array element (or a character of a string) when it is the
  canonical decimal form of a number: \<open>0\<close>, or digits without a leading zero.
\<close>

definition isDigit :: "char \<Rightarrow> bool" where
  "isDigit c = (c \<in> set ''0123456789'')"

definition digitVal :: "char \<Rightarrow> nat" where
  "digitVal c = of_char c - 48"

definition arrayIndex :: "string \<Rightarrow> nat option" where
  "arrayIndex k =
     (if k \<noteq> [] \<and> list_all isDigit k \<and> (hd k \<noteq> CHR ''0'' \<or> length k = 1)
      then Some (foldl (\<lambda>n c. 10 * n + digitVal c) 0 k) else None)"

subsection \<open>Reading, writing and deleting properties\<close>

text \<open>
  \<open>v[k]\<close>, \<open>v[k] = w\<close> and \<open>delete v[k]\<close> in strict mode (the sources are ES modules).
  Reading from \<open>undefined\<close> or \<open>null\<close> throws; so does writing to them or to a string.
  The own properties of a string, its characters and its length, are read-only and cannot
  be deleted.
\<close>

definition ownOfString :: "string \<Rightarrow> string \<Rightarrow> bool" where
  "ownOfString s k =
     (k = ''length'' \<or> (case arrayIndex k of Some i \<Rightarrow> i < length s | None \<Rightarrow> False))"

fun getProp :: "jsval \<Rightarrow> string \<Rightarrow> jserror + jsval" where
  "getProp Undef k = Inl (TypeError (''Cannot read properties of undefined (reading '' @ quoted k @ '')''))"
| "getProp Null k = Inl (TypeError (''Cannot read properties of null (reading '' @ quoted k @ '')''))"
| "getProp (Str s) k =
     (case arrayIndex k of
        Some i \<Rightarrow> if i < length s then Inr (Str [s ! i]) else Inr Undef
      | None \<Rightarrow> Inr Undef)"
| "getProp (Arr xs ps) k =
     (case arrayIndex k of
        Some i \<Rightarrow> if i < length xs then Inr (xs ! i) else Inr Undef
      | None \<Rightarrow> (case mget ps k of Some v \<Rightarrow> Inr v | None \<Rightarrow> Inr Undef))"
| "getProp (Obj ps) k = (case mget ps k of Some v \<Rightarrow> Inr v | None \<Rightarrow> Inr Undef)"

text \<open>A read from a value already known to be an object or an array never throws.\<close>

definition objProp :: "jsval \<Rightarrow> string \<Rightarrow> jsval" where
  "objProp v k = (case getProp v k of Inr w \<Rightarrow> w | Inl e \<Rightarrow> Undef)"

fun setProp :: "jsval \<Rightarrow> string \<Rightarrow> jsval \<Rightarrow> jserror + jsval" where
  "setProp Undef k w = Inl (TypeError (''Cannot set properties of undefined (setting '' @ quoted k @ '')''))"
| "setProp Null k w = Inl (TypeError (''Cannot set properties of null (setting '' @ quoted k @ '')''))"
| "setProp (Str s) k w =
     (if ownOfString s k
      then Inl (TypeError (''Cannot assign to read only property '' @ quoted k @ '' of string '' @ quoted s))
      else Inl (TypeError (''Cannot create property '' @ quoted k @ '' on string '' @ quoted s)))"
| "setProp (Arr xs ps) k w =
     (case arrayIndex k of
        Some i \<Rightarrow> if i < length xs then Inr (Arr (xs[i := w]) ps)
                  else Inr (Arr (xs @ replicate (i - length xs) Undef @ [w]) ps)
      | None \<Rightarrow> Inr (Arr xs (mset k w ps)))"
| "setProp (Obj ps) k w = Inr (Obj (mset k w ps))"

fun delProp :: "jsval \<Rightarrow> string \<Rightarrow> jserror + jsval" where
  "delProp Undef k = Inl (TypeError (''Cannot convert undefined or null to object''))"
| "delProp Null k = Inl (TypeError (''Cannot convert undefined or null to object''))"
| "delProp (Str s) k =
     (if ownOfString s k
      then Inl (TypeError (''Cannot delete property '' @ quoted k @ '' of [object String]''))
      else Inr (Str s))"
| "delProp (Arr xs ps) k =
     (case arrayIndex k of
        Some i \<Rightarrow> if i < length xs then Inr (Arr (xs[i := Undef]) ps) else Inr (Arr xs ps)
      | None \<Rightarrow> Inr (Arr xs (mdelete k ps)))"
| "delProp (Obj ps) k = Inr (Obj (mdelete k ps))"

section \<open>Source model (types.ts)\<close>

record ModInfo =
  packageId :: string
  name :: string
  loadOrder :: int
  path :: string
  isCore :: bool
  isDLC :: bool

datatype conflict_type =
  Override | Patch_collision | Missing_dependency | Circular_dependency
  | Incompatible_patch | Xpath_conflict

datatype severity = Error | Warning | Info

record DefConflict =
  ctype :: conflict_type
  severity :: severity
  cdefName :: "string option"
  cxpath :: "string option"
  cmods :: "ModInfo list"
  description :: string
  resolution :: "string option"

record DefReference =
  fromDef :: string
  toDef :: string
  referenceType :: string
  rpath :: string

text \<open>
  Definitions and patch operations are objects shared between several indexes and mutated
  in place, so they live in a store and the indexes hold their addresses: \<open>dheap\<close> and
  \<open>pheap\<close> are the two stores, \<open>dnext\<close> is the next unused address of the first. The
  records of the sources are never mutated after loading and the loader builds one per
  source, so they are kept as values and compared as values. Fields that none of the
  modelled operations reads (author, versions, dependency lists, the reference graph, the
  per-source patch lists) are left out.
\<close>

type_synonym addr = nat

record PatchConditions =
  modLoaded :: "string list option"
  modNotLoaded :: "string list option"

record PatchOperation =
  pid :: string
  pmod :: ModInfo
  pfilePath :: string
  operation :: string
  xpath :: string
  pvalue :: jsval
  success :: "bool option"
  perror :: "string option"
  targetDef :: "string option"
  porder :: int
  conditions :: "PatchConditions option"
  appliedTo :: "string list option"

record RimWorldDef =
  defName :: string
  deftype :: string
  parent :: jsval
  abstract :: bool
  content :: jsval
  originalContent :: jsval
  filePath :: string
  modInfo :: ModInfo
  outgoingRefs :: "DefReference list"
  incomingRefs :: "DefReference list"
  patchHistory :: "addr list"
  defConflicts :: "DefConflict list"

record ServerData =
  dheap :: "addr \<Rightarrow> RimWorldDef"
  dnext :: addr
  pheap :: "addr \<Rightarrow> PatchOperation"
  defs :: "(string \<times> addr) list"
  defsByType :: "(string \<times> addr list) list"
  defsByMod :: "(string \<times> addr list) list"
  mods :: "(string \<times> ModInfo) list"
  globalPatches :: "addr list"
  conflicts :: "DefConflict list"
  abstractDefs :: "(string \<times> addr) list"

section \<open>Definition registry (DefParser.processDefsFile)\<close>

text \<open>
  \<open>CombinedScanner.processDefsFile\<close> repeats the code of \<open>DefParser.processDefsFile\<close>
  statement by statement (only the relative file path is computed in another way), so one
  embedding serves both.
\<close>

text \<open>
  \<open>def.defName || def['@_Name']\<close>, then \<open>if (defName)\<close>. \<open>RimWorldDef.defName\<close> is
  declared a string: a name that is an element with children is outside that type and
  is not registered by the embedding.
\<close>

definition defNameOf :: "jsval \<Rightarrow> string option" where
  "defNameOf d =
     (case jsOr (objProp d ''defName'') (objProp d ''@_Name'') of
        Str n \<Rightarrow> if n \<noteq> [] then Some n else None
      | _ \<Rightarrow> None)"

definition isAbstractOf :: "jsval \<Rightarrow> bool" where
  "isAbstractOf d = (objProp d ''@_Abstract'' = Str ''True'' \<or> objProp d ''Abstract'' = Str ''True'')"

definition overrideConflict :: "string \<Rightarrow> ModInfo \<Rightarrow> ModInfo \<Rightarrow> DefConflict" where
  "overrideConflict dn existingMod m =
     \<lparr> ctype = Override, severity = Warning, cdefName = Some dn, cxpath = None,
       cmods = [existingMod, m],
       description = name m @ '' overrides '' @ dn @ '' from '' @ name existingMod,
       resolution = Some (if loadOrder m > loadOrder existingMod
                          then name m @ '' wins due to load order''
                          else name existingMod @ '' wins due to load order'') \<rparr>"

text \<open>\<open>typeList.findIndex(d => d.defName === defName)\<close> followed by \<open>splice(index, 1)\<close>.\<close>

fun removeFirstNamed :: "(addr \<Rightarrow> RimWorldDef) \<Rightarrow> string \<Rightarrow> addr list \<Rightarrow> addr list" where
  "removeFirstNamed h dn [] = []"
| "removeFirstNamed h dn (a # as) =
     (if defName (h a) = dn then as else a # removeFirstNamed h dn as)"

definition bucket :: "(string \<times> addr list) list \<Rightarrow> string \<Rightarrow> addr list" where
  "bucket m k = (case mget m k of Some b \<Rightarrow> b | None \<Rightarrow> [])"

text \<open>
  The body of the inner loop of \<open>processDefsFile\<close> for one element \<open>d\<close> found under the
  type tag \<open>defType\<close> in a file of source \<open>m\<close>; \<open>relPath\<close> is \<open>relative(mod.path, filePath)\<close>.
  First the override conflict (\<open>existing && existing.mod.packageId !== mod.packageId\<close>),
  pushed on the new record and on the global list; then the abstract lookup; then, when
  \<open>!existing || existing.mod.loadOrder < mod.loadOrder\<close>, the three indexes.
\<close>

definition raisedConflicts :: "ServerData \<Rightarrow> string \<Rightarrow> ModInfo \<Rightarrow> DefConflict list" where
  "raisedConflicts data dn m =
     (case mget (defs data) dn of
        None \<Rightarrow> []
      | Some ea \<Rightarrow>
          if packageId (modInfo (dheap data ea)) \<noteq> packageId m
          then [overrideConflict dn (modInfo (dheap data ea)) m] else [])"

definition displaces :: "ServerData \<Rightarrow> string \<Rightarrow> ModInfo \<Rightarrow> bool" where
  "displaces data dn m =
     (case mget (defs data) dn of
        None \<Rightarrow> True
      | Some ea \<Rightarrow> loadOrder (modInfo (dheap data ea)) < loadOrder m)"

definition newRimDef :: "string \<Rightarrow> string \<Rightarrow> jsval \<Rightarrow> string \<Rightarrow> ModInfo \<Rightarrow> DefConflict list \<Rightarrow> RimWorldDef" where
  "newRimDef dn defType d relPath m raised =
     \<lparr> defName = dn, deftype = defType,
       parent = jsOr (objProp d ''@_ParentName'') (objProp d ''ParentName''),
       abstract = isAbstractOf d, content = d, originalContent = Null,
       filePath = relPath, modInfo = m, outgoingRefs = [], incomingRefs = [],
       patchHistory = [], defConflicts = raised \<rparr>"

definition installCurrent :: "string \<Rightarrow> string \<Rightarrow> ModInfo \<Rightarrow> addr \<Rightarrow> bool \<Rightarrow> ServerData \<Rightarrow> ServerData" where
  "installCurrent dn defType m a hadExisting data =
     (let typeList = bucket (defsByType data) defType;
          typeList' = (if hadExisting then removeFirstNamed (dheap data) dn typeList else typeList)
      in data\<lparr> defs := mset dn a (defs data),
                defsByType := mset defType (typeList' @ [a]) (defsByType data),
                defsByMod := mset (packageId m) (bucket (defsByMod data) (packageId m) @ [a])
                               (defsByMod data) \<rparr>)"

definition registerDef :: "string \<Rightarrow> jsval \<Rightarrow> string \<Rightarrow> ModInfo \<Rightarrow> ServerData \<Rightarrow> ServerData" where
  "registerDef defType d relPath m data =
     (if \<not> (truthy d \<and> typeofObject d) then data
      else case defNameOf d of
        None \<Rightarrow> data
      | Some dn \<Rightarrow>
          let raised = raisedConflicts data dn m;
              a = dnext data;
              data1 = data\<lparr> dheap := (dheap data)(a := newRimDef dn defType d relPath m raised),
                              dnext := Suc a,
                              conflicts := conflicts data @ raised \<rparr>;
              data2 = (if isAbstractOf d
                       then data1\<lparr> abstractDefs := mset dn a (abstractDefs data1) \<rparr>
                       else data1)
          in if displaces data dn m
             then installCurrent dn defType m a (mget (defs data) dn \<noteq> None) data2
             else data2)"

text \<open>
  The loops of \<open>processDefsFile\<close>: every entry of the parsed \<open>Defs\<close> element whose value
  is an object; a single element counts as a list of one.
\<close>

fun registerAll :: "string \<Rightarrow> jsval list \<Rightarrow> string \<Rightarrow> ModInfo \<Rightarrow> ServerData \<Rightarrow> ServerData" where
  "registerAll defType [] relPath m data = data"
| "registerAll defType (d # ds) relPath m data =
     registerAll defType ds relPath m (registerDef defType d relPath m data)"

fun processEntries :: "(string \<times> jsval) list \<Rightarrow> string \<Rightarrow> ModInfo \<Rightarrow> ServerData \<Rightarrow> ServerData" where
  "processEntries [] relPath m data = data"
| "processEntries ((defType, ds) # es) relPath m data =
     processEntries es relPath m
       (if \<not> typeofObject ds then data
        else case ds of
               Arr xs ps \<Rightarrow> registerAll defType xs relPath m data
             | _ \<Rightarrow> registerAll defType [ds] relPath m data)"

text \<open>\<open>Object.entries\<close> of a value: the elements of an array come under their indices.\<close>

fun showNat :: "nat \<Rightarrow> string" where
  "showNat n = (if n < 10 then [char_of (48 + n)] else showNat (n div 10) @ [char_of (48 + n mod 10)])"

declare showNat.simps [simp del]

fun indexed :: "nat \<Rightarrow> jsval list \<Rightarrow> (string \<times> jsval) list" where
  "indexed i [] = []"
| "indexed i (x # xs) = (showNat i, x) # indexed (Suc i) xs"

fun entries :: "jsval \<Rightarrow> (string \<times> jsval) list" where
  "entries (Obj ps) = ps"
| "entries (Arr xs ps) = indexed 0 xs @ ps"
| "entries (Str s) = indexed 0 (map (\<lambda>c. Str [c]) s)"
| "entries v = []"

definition processDefsFile :: "jsval \<Rightarrow> string \<Rightarrow> ModInfo \<Rightarrow> ServerData \<Rightarrow> ServerData" where
  "processDefsFile defsData relPath m data = processEntries (entries defsData) relPath m data"

text \<open>Name lookup of the query layer (\<open>handleGetDef\<close>): the current holder, else the abstract one.\<close>

definition lookupDef :: "ServerData \<Rightarrow> string \<Rightarrow> addr option" where
  "lookupDef data dn = (case mget (defs data) dn of Some a \<Rightarrow> Some a | None \<Rightarrow> mget (abstractDefs data) dn)"

definition emptyHeapDef :: RimWorldDef where
  "emptyHeapDef = \<lparr> defName = [], deftype = [], parent = Undef, abstract = False, content = Undef,
                    originalContent = Null, filePath = [], modInfo = \<lparr> packageId = [], name = [],
                    loadOrder = 0, path = [], isCore = False, isDLC = False \<rparr>,
                    outgoingRefs = [], incomingRefs = [], patchHistory = [], defConflicts = [] \<rparr>"

definition emptyHeapPatch :: PatchOperation where
  "emptyHeapPatch = \<lparr> pid = [], pmod = \<lparr> packageId = [], name = [], loadOrder = 0, path = [],
                      isCore = False, isDLC = False \<rparr>, pfilePath = [], operation = [], xpath = [],
                      pvalue = Undef, success = None, perror = None, targetDef = None, porder = 0,
                      conditions = None, appliedTo = None \<rparr>"

text \<open>The state built by the server's constructor: every index empty.\<close>

definition emptyData :: ServerData where
  "emptyData = \<lparr> dheap = (\<lambda>a. emptyHeapDef), dnext = 0, pheap = (\<lambda>a. emptyHeapPatch), defs = [],
                 defsByType = [], defsByMod = [], mods = [], globalPatches = [], conflicts = [],
                 abstractDefs = [] \<rparr>"

section \<open>Patch engine (PatchManager.ts)\<close>

subsection \<open>Location expressions\<close>

text \<open>
  \<open>xpathToPath\<close> turns a location expression into a dotted path with four replacements:
  leading slashes are dropped (\<open>/^\/+/\<close>), every bracket group is removed
  (\<open>/\[.*?\]/g\<close>: from a \<open>[\<close> to the first \<open>]\<close> after it, with no line terminator between
  them, since \<open>.\<close> does not match one), \<open>/\<close> becomes \<open>.\<close>, and white space is removed.
\<close>

text \<open>
  Among 8-bit characters: the line terminators are line feed and carriage return; the
  white space of regular expressions is tab, line feed, vertical tab, form feed, carriage
  return, space and no-break space.
\<close>

definition isLineTerminator :: "char \<Rightarrow> bool" where
  "isLineTerminator c = (c = CHR 0x0A \<or> c = CHR 0x0D)"

definition isWhitespace :: "char \<Rightarrow> bool" where
  "isWhitespace c = (c \<in> set [CHR 0x09, CHR 0x0A, CHR 0x0B, CHR 0x0C, CHR 0x0D, CHR 0x20, CHR 0xA0])"

text \<open>
  \<open>closeBracket cs\<close> is the text after the bracket group opened just before \<open>cs\<close>, when
  there is such a group.
\<close>

fun closeBracket :: "string \<Rightarrow> string option" where
  "closeBracket [] = None"
| "closeBracket (c # cs) =
     (if c = CHR '']'' then Some cs
      else if isLineTerminator c then None
      else closeBracket cs)"

function stripBrackets :: "string \<Rightarrow> string" where
  "stripBrackets [] = []"
| "stripBrackets (c # cs) =
     (if c = CHR ''[''
      then (case closeBracket cs of
              Some rest \<Rightarrow> stripBrackets rest
            | None \<Rightarrow> c # stripBrackets cs)
      else c # stripBrackets cs)"
  by pat_completeness auto
termination
proof -
  have shorter: "length rest \<le> length cs" if "closeBracket cs = Some rest" for cs rest
    using that by (induction cs) (auto split: if_splits)
  show ?thesis
    by (relation "measure length") (auto dest: shorter)
qed

definition xpathToPath :: "string \<Rightarrow> string" where
  "xpathToPath xp =
     filter (\<lambda>c. \<not> isWhitespace c)
       (map (\<lambda>c. if c = CHR ''/'' then CHR ''.'' else c)
          (stripBrackets (dropWhile (\<lambda>c. c = CHR ''/'') xp)))"

text \<open>\<open>String.prototype.split\<close> with a one-character separator, \<open>endsWith\<close>, \<open>includes\<close>.\<close>

fun splitOn :: "char \<Rightarrow> string \<Rightarrow> string list" where
  "splitOn sep [] = [[]]"
| "splitOn sep (c # cs) =
     (if c = sep then [] # splitOn sep cs
      else (case splitOn sep cs of
              p # ps \<Rightarrow> (c # p) # ps
            | [] \<Rightarrow> [[c]]))"

definition endsWith :: "string \<Rightarrow> string \<Rightarrow> bool" where
  "endsWith s suffix = (length suffix \<le> length s \<and> drop (length s - length suffix) s = suffix)"

fun includesStr :: "string \<Rightarrow> string \<Rightarrow> bool" where
  "includesStr [] t = (t = [])"
| "includesStr (c # cs) t = (take (length t) (c # cs) = t \<or> includesStr cs t)"

text \<open>A text in which no \<open>[\<close> is followed, at any distance, by a \<open>]\<close>.\<close>

fun bracketFree :: "string \<Rightarrow> bool" where
  "bracketFree [] = True"
| "bracketFree (c # cs) = ((c = CHR ''['' \<longrightarrow> CHR '']'' \<notin> set cs) \<and> bracketFree cs)"

subsection \<open>Mutating a content tree\<close>

text \<open>
  A mutation works in place and may throw half way: its result is the tree as it stands
  when the call ends, with the error if one was thrown.
\<close>

type_synonym outcome = "jsval \<times> jserror option"

definition attempt :: "jsval \<Rightarrow> jserror + jsval \<Rightarrow> outcome" where
  "attempt current r = (case r of Inl e \<Rightarrow> (current, Some e) | Inr v \<Rightarrow> (v, None))"

definition andThen :: "outcome \<Rightarrow> (jsval \<Rightarrow> outcome) \<Rightarrow> outcome" where
  "andThen r f = (case snd r of Some e \<Rightarrow> r | None \<Rightarrow> f (fst r))"

text \<open>
  The node reached under \<open>k\<close> is the same object the parent refers to: after the node was
  mutated the parent holds the mutated node. A string holds no reference.
\<close>

definition putBack :: "jsval \<Rightarrow> string \<Rightarrow> jsval \<Rightarrow> jsval" where
  "putBack current k node = (case setProp current k node of Inr c \<Rightarrow> c | Inl e \<Rightarrow> current)"

text \<open>\<open>current[k1][k2]\<close> and \<open>current[k1][k2] = w\<close>.\<close>

definition getNested :: "jsval \<Rightarrow> string \<Rightarrow> string \<Rightarrow> jserror + jsval" where
  "getNested current k1 k2 =
     (case getProp current k1 of Inl e \<Rightarrow> Inl e | Inr node \<Rightarrow> getProp node k2)"

definition setNested :: "jsval \<Rightarrow> string \<Rightarrow> string \<Rightarrow> jsval \<Rightarrow> jserror + jsval" where
  "setNested current k1 k2 w =
     (case getProp current k1 of
        Inl e \<Rightarrow> Inl e
      | Inr node \<Rightarrow>
          (case setProp node k2 w of
             Inl e \<Rightarrow> Inl e
           | Inr node' \<Rightarrow> Inr (putBack current k1 node')))"

text \<open>
  \<open>current[k].li.push(value)\<close>. When \<open>li\<close> holds a value without a \<open>push\<close> method the engine
  names the callee as the source writes it, which is the argument \<open>site\<close>.
\<close>

definition pushLi :: "string \<Rightarrow> jsval \<Rightarrow> string \<Rightarrow> jsval \<Rightarrow> jserror + jsval" where
  "pushLi site current k w =
     (case getNested current k ''li'' of
        Inl e \<Rightarrow> Inl e
      | Inr (Arr xs ps) \<Rightarrow> setNested current k ''li'' (Arr (xs @ [w]) ps)
      | Inr Undef \<Rightarrow> Inl (TypeError (''Cannot read properties of undefined (reading '' @ quoted ''push'' @ '')''))
      | Inr Null \<Rightarrow> Inl (TypeError (''Cannot read properties of null (reading '' @ quoted ''push'' @ '')''))
      | Inr v \<Rightarrow> Inl (TypeError (site @ '' is not a function'')))"

text \<open>
  The end of \<open>addToContent\<close>: with a trailing \<open>[]\<close> the value is pushed on the \<open>li\<close> list
  under the name before the marker, otherwise it is assigned.
\<close>

definition addLeaf :: "jsval \<Rightarrow> jsval \<Rightarrow> string \<Rightarrow> outcome" where
  "addLeaf w current lastPart =
     (if endsWith lastPart ''[]''
      then
        (let arrayName = take (length lastPart - 2) lastPart
         in andThen
              (case getProp current arrayName of
                 Inl e \<Rightarrow> (current, Some e)
               | Inr v \<Rightarrow> if \<not> truthy v
                          then attempt current (setProp current arrayName (Obj [(''li'', Arr [] [])]))
                          else (current, None))
              (\<lambda>c1. andThen
                 (case getNested c1 arrayName ''li'' of
                    Inl e \<Rightarrow> (c1, Some e)
                  | Inr v \<Rightarrow> if \<not> truthy v
                             then attempt c1 (setNested c1 arrayName ''li'' (Arr [] []))
                             else (c1, None))
                 (\<lambda>c2. andThen
                    (case getNested c2 arrayName ''li'' of
                       Inl e \<Rightarrow> (c2, Some e)
                     | Inr v \<Rightarrow> if \<not> isArray v
                                then attempt c2 (setNested c2 arrayName ''li'' (Arr [v] []))
                                else (c2, None))
                    (\<lambda>c3. attempt c3 (pushLi ''current[arrayName].li.push'' c3 arrayName w)))))
      else attempt current (setProp current lastPart w))"

text \<open>
  The loop shared by \<open>addToContent\<close> and \<open>replaceInContent\<close>: walk every part but the
  last, creating an empty object where the part is absent or falsy.
\<close>

fun descendCreate :: "(jsval \<Rightarrow> string \<Rightarrow> outcome) \<Rightarrow> jsval \<Rightarrow> string list \<Rightarrow> outcome" where
  "descendCreate leaf current [] = (current, None)"
| "descendCreate leaf current [lastPart] = leaf current lastPart"
| "descendCreate leaf current (p # q # ps) =
     (case getProp current p of
        Inl e \<Rightarrow> (current, Some e)
      | Inr v \<Rightarrow>
          if \<not> truthy v
          then (case setProp current p (Obj []) of
                  Inl e \<Rightarrow> (current, Some e)
                | Inr current' \<Rightarrow>
                    (let r = descendCreate leaf (Obj []) (q # ps)
                     in (putBack current' p (fst r), snd r)))
          else (let r = descendCreate leaf v (q # ps)
                in (putBack current p (fst r), snd r)))"

definition addToContent :: "jsval \<Rightarrow> string \<Rightarrow> jsval \<Rightarrow> outcome" where
  "addToContent c xp w = descendCreate (addLeaf w) c (splitOn CHR ''.'' (xpathToPath xp))"

definition replaceInContent :: "jsval \<Rightarrow> string \<Rightarrow> jsval \<Rightarrow> outcome" where
  "replaceInContent c xp w =
     descendCreate (\<lambda>current lastPart. attempt current (setProp current lastPart w)) c
       (splitOn CHR ''.'' (xpathToPath xp))"

fun removeParts :: "jsval \<Rightarrow> string list \<Rightarrow> outcome" where
  "removeParts current [] = (current, None)"
| "removeParts current [lastPart] = attempt current (delProp current lastPart)"
| "removeParts current (p # q # ps) =
     (case getProp current p of
        Inl e \<Rightarrow> (current, Some e)
      | Inr v \<Rightarrow>
          if \<not> truthy v then (current, None)
          else (let r = removeParts v (q # ps)
                in (putBack current p (fst r), snd r)))"

definition removeFromContent :: "jsval \<Rightarrow> string \<Rightarrow> outcome" where
  "removeFromContent c xp = removeParts c (splitOn CHR ''.'' (xpathToPath xp))"

text \<open>The \<open>AddModExtension\<close> case of \<open>applyPatchToDef\<close>.\<close>

definition addModExtension :: "jsval \<Rightarrow> jsval \<Rightarrow> outcome" where
  "addModExtension c w =
     andThen
       (case getProp c ''modExtensions'' of
          Inl e \<Rightarrow> (c, Some e)
        | Inr v \<Rightarrow> if \<not> truthy v
                   then attempt c (setProp c ''modExtensions'' (Obj [(''li'', Arr [] [])]))
                   else (c, None))
       (\<lambda>c1. andThen
          (case getNested c1 ''modExtensions'' ''li'' of
             Inl e \<Rightarrow> (c1, Some e)
           | Inr v \<Rightarrow> if \<not> isArray v
                      then attempt c1 (setNested c1 ''modExtensions'' ''li''
                                         (Arr (if truthy v then [v] else []) []))
                      else (c1, None))
          (\<lambda>c2. attempt c2 (pushLi ''def.content.modExtensions.li.push'' c2 ''modExtensions'' w)))"

text \<open>The \<open>switch\<close> of \<open>applyPatchToDef\<close>: the mutation proper.\<close>

definition mutate :: "string \<Rightarrow> string \<Rightarrow> jsval \<Rightarrow> jsval \<Rightarrow> outcome" where
  "mutate op xp w c =
     (if op = ''Add'' \<or> op = ''PatchOperationAdd'' then addToContent c xp w
      else if op = ''Remove'' \<or> op = ''PatchOperationRemove'' then removeFromContent c xp
      else if op = ''Replace'' \<or> op = ''PatchOperationReplace'' then replaceInContent c xp w
      else if op = ''AddModExtension'' then addModExtension c w
      else (c, None))"

subsection \<open>The snapshot\<close>

text \<open>
  \<open>JSON.parse(JSON.stringify(v))\<close>: a property whose value is \<open>undefined\<close> is dropped, an
  \<open>undefined\<close> array element becomes \<open>null\<close>, the named properties of an array are dropped;
  \<open>undefined\<close> itself has no JSON text and parsing throws.
\<close>

fun jsonValue :: "jsval \<Rightarrow> jsval"
  and jsonElems :: "jsval list \<Rightarrow> jsval list"
  and jsonProps :: "(string \<times> jsval) list \<Rightarrow> (string \<times> jsval) list"
where
  "jsonValue Undef = Null"
| "jsonValue Null = Null"
| "jsonValue (Str s) = Str s"
| "jsonValue (Arr xs ps) = Arr (jsonElems xs) []"
| "jsonValue (Obj ps) = Obj (jsonProps ps)"
| "jsonElems [] = []"
| "jsonElems (x # xs) = jsonValue x # jsonElems xs"
| "jsonProps [] = []"
| "jsonProps ((k, v) # ps) = (if v = Undef then jsonProps ps else (k, jsonValue v) # jsonProps ps)"

definition jsonRoundTrip :: "jsval \<Rightarrow> jserror + jsval" where
  "jsonRoundTrip v =
     (if v = Undef then Inl (SyntaxError (CHR 0x22 # ''undefined'' @ CHR 0x22 # '' is not valid JSON'')) else Inr (jsonValue v))"

subsection \<open>Applying one operation to one definition\<close>

text \<open>
  \<open>Set.add\<close>, used for the applied-to set when the operation has one
  (\<open>patch.appliedTo?.add\<close>) and for \<open>new Set(mods)\<close>; updates of one object in a store.
\<close>

definition setAdd :: "'a \<Rightarrow> 'a list \<Rightarrow> 'a list" where
  "setAdd x xs = (if x \<in> set xs then xs else xs @ [x])"

definition updDef :: "addr \<Rightarrow> (RimWorldDef \<Rightarrow> RimWorldDef) \<Rightarrow> ServerData \<Rightarrow> ServerData" where
  "updDef a f data = data\<lparr> dheap := (dheap data)(a := f (dheap data a)) \<rparr>"

definition updPatch :: "addr \<Rightarrow> (PatchOperation \<Rightarrow> PatchOperation) \<Rightarrow> ServerData \<Rightarrow> ServerData" where
  "updPatch pa f data = data\<lparr> pheap := (pheap data)(pa := f (pheap data pa)) \<rparr>"

text \<open>The first two statements after the snapshot: the history and the applied-to set.\<close>

definition recordAttempt :: "addr \<Rightarrow> addr \<Rightarrow> ServerData \<Rightarrow> ServerData" where
  "recordAttempt a pa data =
     updPatch pa (\<lambda>p. p\<lparr> appliedTo := map_option (setAdd (defName (dheap data a))) (appliedTo p) \<rparr>)
       (updDef a (\<lambda>d. d\<lparr> patchHistory := patchHistory d @ [pa] \<rparr>) data)"

text \<open>
  \<open>applyPatchToDef(def, patch)\<close>: the snapshot on first touch, the two records of the
  attempt, then the mutation. The result is the state when the call ends and the error
  if one was thrown.
\<close>

definition applyPatchToDef :: "addr \<Rightarrow> addr \<Rightarrow> ServerData \<Rightarrow> ServerData \<times> jserror option" where
  "applyPatchToDef a pa data =
     (case (if \<not> truthy (originalContent (dheap data a))
            then jsonRoundTrip (content (dheap data a))
            else Inr (originalContent (dheap data a))) of
        Inl e \<Rightarrow> (data, Some e)
      | Inr snapshot \<Rightarrow>
          (let data1 = recordAttempt a pa (updDef a (\<lambda>d. d\<lparr> originalContent := snapshot \<rparr>) data);
               p = pheap data1 pa;
               r = mutate (operation p) (xpath p) (pvalue p) (content (dheap data1 a))
           in (updDef a (\<lambda>d. d\<lparr> content := fst r \<rparr>) data1, snd r)))"

text \<open>\<open>matchesXPath\<close>: the type tag or the name occurs in the location expression.\<close>

definition matchesXPath :: "RimWorldDef \<Rightarrow> string \<Rightarrow> bool" where
  "matchesXPath d xp =
     (includesStr xp (deftype d) \<or> includesStr xp (defName d)
      \<or> includesStr xp (''defName='' @ [CHR 0x22] @ defName d @ [CHR 0x22])
      \<or> includesStr xp (''defName='' @ [CHR 0x27] @ defName d @ [CHR 0x27]))"

text \<open>The loop over \<open>data.defs.entries()\<close> for an operation without a resolved target.\<close>

fun applyToMatching :: "addr \<Rightarrow> (string \<times> addr) list \<Rightarrow> ServerData \<Rightarrow> ServerData \<times> jserror option" where
  "applyToMatching pa [] data = (data, None)"
| "applyToMatching pa ((dn, a) # es) data =
     (if matchesXPath (dheap data a) (xpath (pheap data pa))
      then (case applyPatchToDef a pa data of
              (data', Some e) \<Rightarrow> (data', Some e)
            | (data', None) \<Rightarrow> applyToMatching pa es data')
      else applyToMatching pa es data)"

text \<open>
  \<open>applyPatch\<close>: a resolved target (\<open>if (patch.targetDef)\<close>, so not the empty text) is
  looked up among the current holders and skipped silently when absent.
\<close>

definition applyPatch :: "addr \<Rightarrow> ServerData \<Rightarrow> ServerData \<times> jserror option" where
  "applyPatch pa data =
     (case targetDef (pheap data pa) of
        Some t \<Rightarrow>
          if t \<noteq> []
          then (case mget (defs data) t of
                  Some a \<Rightarrow> applyPatchToDef a pa data
                | None \<Rightarrow> (data, None))
          else applyToMatching pa (defs data) data
      | None \<Rightarrow> applyToMatching pa (defs data) data)"

text \<open>\<open>checkPatchConditions\<close>: every required source loaded, no excluded source loaded.\<close>

definition checkPatchConditions :: "PatchOperation \<Rightarrow> ServerData \<Rightarrow> bool" where
  "checkPatchConditions p data =
     (case conditions p of
        None \<Rightarrow> True
      | Some c \<Rightarrow>
          (case modLoaded c of None \<Rightarrow> True | Some ms \<Rightarrow> list_all (mhas (mods data)) ms)
          \<and> (case modNotLoaded c of None \<Rightarrow> True | Some ms \<Rightarrow> list_all (\<lambda>m. \<not> mhas (mods data) m) ms))"

definition incompatiblePatch :: "PatchOperation \<Rightarrow> jserror \<Rightarrow> DefConflict" where
  "incompatiblePatch p e =
     \<lparr> ctype = Incompatible_patch, severity = Error, cdefName = None, cxpath = Some (xpath p),
       cmods = [pmod p], description = ''Patch failed: '' @ message e,
       resolution = Some ''Check patch xpath and target def existence'' \<rparr>"

text \<open>One round of the application loop: the condition, then \<open>try\<close> / \<open>catch\<close>.\<close>

definition applyOne :: "addr \<Rightarrow> ServerData \<Rightarrow> ServerData" where
  "applyOne pa data =
     (if \<not> checkPatchConditions (pheap data pa) data then data
      else case applyPatch pa data of
             (data', None) \<Rightarrow> updPatch pa (\<lambda>p. p\<lparr> success := Some True \<rparr>) data'
           | (data', Some e) \<Rightarrow>
               (updPatch pa (\<lambda>p. p\<lparr> success := Some False, perror := Some (message e) \<rparr>) data')
                 \<lparr> conflicts := conflicts data' @ [incompatiblePatch (pheap data' pa) e] \<rparr>)"

text \<open>
  \<open>Array.prototype.sort\<close> is stable; the comparator orders by the source's rank, then by
  the order within the file.
\<close>

definition comparePatches :: "PatchOperation \<Rightarrow> PatchOperation \<Rightarrow> int" where
  "comparePatches a b =
     (if loadOrder (pmod a) \<noteq> loadOrder (pmod b) then loadOrder (pmod a) - loadOrder (pmod b)
      else porder a - porder b)"

fun insertPatch :: "(addr \<Rightarrow> PatchOperation) \<Rightarrow> addr \<Rightarrow> addr list \<Rightarrow> addr list" where
  "insertPatch h x [] = [x]"
| "insertPatch h x (y # ys) =
     (if comparePatches (h x) (h y) \<le> 0 then x # y # ys else y # insertPatch h x ys)"

definition sortPatches :: "(addr \<Rightarrow> PatchOperation) \<Rightarrow> addr list \<Rightarrow> addr list" where
  "sortPatches h ps = foldr (insertPatch h) ps []"

subsection \<open>Collision detection\<close>

text \<open>
  Both groupings fill a \<open>Map\<close> from a key to the list of operations with that key, in
  the order of the operations: first by \<open>patch.targetDef || patch.xpath\<close>, then, within a
  group of more than one operation, by the text \<open>xpath:operation\<close>. Every inner group of
  more than one operation is reported, with the different sources of its operations.
\<close>

fun groupBy :: "('a \<Rightarrow> string) \<Rightarrow> 'a list \<Rightarrow> (string \<times> 'a list) list \<Rightarrow> (string \<times> 'a list) list" where
  "groupBy key [] groups = groups"
| "groupBy key (x # xs) groups =
     groupBy key xs
       (mset (key x) ((case mget groups (key x) of Some g \<Rightarrow> g | None \<Rightarrow> []) @ [x]) groups)"

definition targetKey :: "PatchOperation \<Rightarrow> string" where
  "targetKey p = (case targetDef p of Some t \<Rightarrow> if t \<noteq> [] then t else xpath p | None \<Rightarrow> xpath p)"

definition xpathKey :: "PatchOperation \<Rightarrow> string" where
  "xpathKey p = xpath p @ '':'' @ operation p"

definition collision :: "string \<Rightarrow> PatchOperation list \<Rightarrow> DefConflict" where
  "collision key xpathPatches =
     (let ms = foldl (\<lambda>acc m. setAdd m acc) [] (map pmod xpathPatches)
      in \<lparr> ctype = Patch_collision, severity = Warning,
           cdefName = targetDef (hd xpathPatches), cxpath = Some (xpath (hd xpathPatches)),
           cmods = ms,
           description = ''Multiple mods patch the same location: '' @ key,
           resolution = Some (''Last patch wins ('' @ name (last ms)
                              @ ''). Consider load order adjustments.'') \<rparr>)"

definition collisionsOf :: "PatchOperation list \<Rightarrow> DefConflict list" where
  "collisionsOf patches =
     (if length patches > 1
      then map (\<lambda>g. collision (fst g) (snd g))
             (filter (\<lambda>g. length (snd g) > 1) (groupBy xpathKey patches []))
      else [])"

definition detectPatchCollisions :: "ServerData \<Rightarrow> ServerData" where
  "detectPatchCollisions data =
     (let successful = filter (\<lambda>p. success p = Some True) (map (pheap data) (globalPatches data));
          patchesByTarget = groupBy targetKey successful []
      in data\<lparr> conflicts := conflicts data @ concat (map (\<lambda>g. collisionsOf (snd g)) patchesByTarget) \<rparr>)"

text \<open>\<open>applyPatches\<close>: sort, apply every operation in that order, detect collisions.\<close>

definition applyPatches :: "ServerData \<Rightarrow> ServerData" where
  "applyPatches data =
     (let data1 = data\<lparr> globalPatches := sortPatches (pheap data) (globalPatches data) \<rparr>
      in detectPatchCollisions (foldl (\<lambda>d pa. applyOne pa d) data1 (globalPatches data1)))"

section \<open>Inheritance resolver (ReferenceAnalyzer.resolveInheritance)\<close>

text \<open>
  \<open>mergeWithParent(parent, child)\<close>. The tests of the source are, in order: child
  \<open>undefined\<close> or \<open>null\<close>; child the deletion sentinel; parent an array; parent not an
  object. The equations below are by the shape of the child and keep that order. When both
  are objects the result starts as a copy of the parent's own properties and the child's
  enumerable properties are merged in one by one (\<open>mergeProps\<close> for named properties,
  \<open>mergeElems\<close> for the elements of a child array, whose keys are their indices).
\<close>

definition deletionSentinel :: jsval where
  "deletionSentinel = Str ''Inherit.Remove''"

definition mergedProp :: "(string \<times> jsval) list \<Rightarrow> string \<Rightarrow> jsval" where
  "mergedProp merged k = jsOr (objProp (Obj merged) k) (Obj [])"

fun mergeWithParent :: "jsval \<Rightarrow> jsval \<Rightarrow> jsval"
  and mergeProps :: "(string \<times> jsval) list \<Rightarrow> (string \<times> jsval) list \<Rightarrow> (string \<times> jsval) list"
  and mergeElems :: "(string \<times> jsval) list \<Rightarrow> nat \<Rightarrow> jsval list \<Rightarrow> (string \<times> jsval) list"
where
  "mergeWithParent par Undef = par"
| "mergeWithParent par Null = par"
| "mergeWithParent par (Str s) =
     (if Str s = deletionSentinel then Undef
      else case par of
             Arr xs ps \<Rightarrow> par
           | Obj ps \<Rightarrow> Obj (foldl (\<lambda>merged kv. mset (fst kv) (snd kv) merged) ps
                              (indexed 0 (map (\<lambda>c. Str [c]) s)))
           | _ \<Rightarrow> Str s)"
| "mergeWithParent par (Arr ys qs) =
     (case par of
        Arr xs ps \<Rightarrow> Arr ys qs
      | Obj ps \<Rightarrow> Obj (mergeProps (mergeElems ps 0 ys) qs)
      | _ \<Rightarrow> Arr ys qs)"
| "mergeWithParent par (Obj cs) =
     (case par of
        Arr xs ps \<Rightarrow> par
      | Obj ps \<Rightarrow> Obj (mergeProps ps cs)
      | _ \<Rightarrow> Obj cs)"
| "mergeProps merged [] = merged"
| "mergeProps merged ((k, v) # cs) =
     mergeProps
       (if v = deletionSentinel then mdelete k merged
        else case v of
               Obj vs \<Rightarrow> mset k (mergeWithParent (mergedProp merged k) v) merged
             | _ \<Rightarrow> mset k v merged)
       cs"
| "mergeElems merged i [] = merged"
| "mergeElems merged i (v # vs) =
     mergeElems
       (if v = deletionSentinel then mdelete (showNat i) merged
        else case v of
               Obj ws \<Rightarrow> mset (showNat i) (mergeWithParent (mergedProp merged (showNat i)) v) merged
             | _ \<Rightarrow> mset (showNat i) v merged)
       (Suc i) vs"

text \<open>
  \<open>resolve(defName)\<close>, with the \<open>resolved\<close> set threaded through. The name is added to
  \<open>resolved\<close> only after the parent has been resolved, so the recursion has no bound of its
  own: the function is partial, and \<open>None\<close> is a call that does not return (in the engine
  the unbounded recursion ends in a stack overflow that nothing in \<open>resolveInheritance\<close>
  catches). A parent reference that is not a string names no definition.
\<close>

definition finishResolve :: "addr \<Rightarrow> string \<Rightarrow> jsval \<Rightarrow> ServerData \<Rightarrow> string list \<Rightarrow> jsval \<times> ServerData \<times> string list" where
  "finishResolve a dn parentContent data resolved =
     (let data' = (if truthy parentContent
                   then data\<lparr> dheap := (dheap data)
                           (a := (dheap data a)\<lparr> content := mergeWithParent parentContent (content (dheap data a)) \<rparr>) \<rparr>
                   else data)
      in (content (dheap data' a), data', if dn \<in> set resolved then resolved else resolved @ [dn]))"

partial_function (option) resolve :: "ServerData \<Rightarrow> string list \<Rightarrow> string \<Rightarrow> (jsval \<times> ServerData \<times> string list) option" where
  "resolve data resolved dn =
     (if dn \<in> set resolved
      then Some (case mget (defs data) dn of Some a \<Rightarrow> content (dheap data a) | None \<Rightarrow> Undef,
                 data, resolved)
      else case lookupDef data dn of
             None \<Rightarrow> Some (Null, data, resolved)
           | Some a \<Rightarrow>
               if truthy (parent (dheap data a))
               then (case parent (dheap data a) of
                       Str p \<Rightarrow> Option.bind (resolve data resolved p)
                                 (\<lambda>r. Some (finishResolve a dn (fst r) (fst (snd r)) (snd (snd r))))
                     | _ \<Rightarrow> Some (finishResolve a dn Null data resolved))
               else Some (finishResolve a dn Undef data resolved))"

text \<open>The loop \<open>for (const defName of data.defs.keys()) resolve(defName)\<close>.\<close>

fun resolveAll :: "ServerData \<Rightarrow> string list \<Rightarrow> string list \<Rightarrow> (ServerData \<times> string list) option" where
  "resolveAll data resolved [] = Some (data, resolved)"
| "resolveAll data resolved (k # ks) =
     Option.bind (resolve data resolved k) (\<lambda>r. resolveAll (fst (snd r)) (snd (snd r)) ks)"

definition resolveInheritance :: "ServerData \<Rightarrow> ServerData option" where
  "resolveInheritance data = map_option fst (resolveAll data [] (map fst (defs data)))"

section \<open>Cycle detection (ConflictDetector.detectCircularDependencies)\<close>

text \<open>
  The closure \<open>hasCycle\<close> works on two sets and the conflict list. \<open>visited\<close> is kept as
  the list of names in the order of \<open>visited.add\<close>, one entry per call of \<open>add\<close>: it is the
  log of the full visits. \<open>recursionStack\<close> is a set with \<open>add\<close> and \<open>delete\<close>.
\<close>

record CycleState =
  visited :: "string list"
  recursionStack :: "string list"
  reported :: "DefConflict list"

text \<open>\<open>path.indexOf(x)\<close> (-1 when absent), \<open>path.slice(i)\<close> (a negative \<open>i\<close> counts from the end), \<open>join\<close>.\<close>

fun indexOf :: "'a list \<Rightarrow> 'a \<Rightarrow> int" where
  "indexOf [] x = -1"
| "indexOf (y # ys) x = (if y = x then 0 else (let i = indexOf ys x in if i < 0 then -1 else i + 1))"

definition sliceFrom :: "'a list \<Rightarrow> int \<Rightarrow> 'a list" where
  "sliceFrom xs i = (if i < 0 then drop (nat (int (length xs) + i)) xs else drop (nat i) xs)"

fun join :: "string \<Rightarrow> string list \<Rightarrow> string" where
  "join sep [] = []"
| "join sep [x] = x"
| "join sep (x # y # ys) = x @ sep @ join sep (y # ys)"

definition cycleConflict :: "ModInfo \<Rightarrow> string \<Rightarrow> string list \<Rightarrow> DefConflict" where
  "cycleConflict m dn cycle =
     \<lparr> ctype = Circular_dependency, severity = Error, cdefName = Some dn,
       cxpath = None, cmods = [m],
       description = ''Circular dependency: '' @ join '' -> '' cycle,
       resolution = Some ''Review and break the dependency cycle'' \<rparr>"

definition reportCycle :: "ServerData \<Rightarrow> CycleState \<Rightarrow> string \<Rightarrow> string list \<Rightarrow> CycleState" where
  "reportCycle data st dn path' =
     (let cycleStart = indexOf path' dn;
          cycle = sliceFrom path' cycleStart @ [dn]
      in case mget (defs data) dn of
           None \<Rightarrow> st
         | Some a \<Rightarrow>
             st\<lparr> reported := reported st @ [cycleConflict (modInfo (dheap data a)) dn cycle] \<rparr>)"

definition enter :: "CycleState \<Rightarrow> string \<Rightarrow> CycleState" where
  "enter st dn = st\<lparr> visited := visited st @ [dn],
                     recursionStack := (if dn \<in> set (recursionStack st) then recursionStack st
                                        else recursionStack st @ [dn]) \<rparr>"

definition leave :: "CycleState \<Rightarrow> string \<Rightarrow> CycleState" where
  "leave st dn = st\<lparr> recursionStack := removeAll dn (recursionStack st) \<rparr>"

text \<open>
  \<open>hasCycle(defName, path)\<close> and its loop over the outgoing references of the definition,
  which stops at the first reference that reports a cycle. Every recursive call either
  marks a key of the registry as visited or walks down the reference list, hence the
  termination order.
\<close>

function hasCycle :: "ServerData \<Rightarrow> CycleState \<Rightarrow> string \<Rightarrow> string list \<Rightarrow> bool \<times> CycleState"
  and scanRefs :: "ServerData \<Rightarrow> CycleState \<Rightarrow> DefReference list \<Rightarrow> string list \<Rightarrow> bool \<times> CycleState"
where
  "hasCycle data st dn path' =
     (if dn \<in> set (recursionStack st) then (True, reportCycle data st dn path')
      else if dn \<in> set (visited st) then (False, st)
      else case mget (defs data) dn of
             None \<Rightarrow> (False, leave (enter st dn) dn)
           | Some a \<Rightarrow>
               (let r = scanRefs data (enter st dn) (outgoingRefs (dheap data a)) (path' @ [dn])
                in if fst r then (True, snd r) else (False, leave (snd r) dn)))"
| "scanRefs data st [] path' = (False, st)"
| "scanRefs data st (ref # refs) path' =
     (let r = hasCycle data st (toDef ref) path'
      in if fst r then (True, snd r) else scanRefs data (snd r) refs path')"
  by pat_completeness auto

termination hasCycle
proof -
  have mono:
    "hasCycle_scanRefs_dom (Inl (data, st, dn, p)) \<Longrightarrow> set (visited st) \<subseteq> set (visited (snd (hasCycle data st dn p)))"
    "hasCycle_scanRefs_dom (Inr (data, st, refs, p)) \<Longrightarrow> set (visited st) \<subseteq> set (visited (snd (scanRefs data st refs p)))"
    for data st dn p refs
  proof (induct data st dn p and data st refs p rule: hasCycle_scanRefs.pinduct)
    case (1 data st dn path')
    then show ?case
      by (auto simp: hasCycle.psimps reportCycle_def enter_def leave_def Let_def split: option.splits if_splits)
  next
    case (2 data st path')
    then show ?case by (simp add: scanRefs.psimps)
  next
    case (3 data st ref refs path')
    then show ?case
      by (auto simp: scanRefs.psimps Let_def split: if_splits)
  qed
  let ?K = "\<lambda>data. set (map fst (defs data))"
  let ?m = "\<lambda>x. case x of
              Inl (data, st, dn, p) \<Rightarrow> (card (?K data - set (visited st)), 0)
            | Inr (data, st, refs, p) \<Rightarrow> (card (?K data - set (visited st)), Suc (length refs))"
  show ?thesis
  proof (relation "inv_image (less_than <*lex*> less_than) ?m", goal_cases)
    case 1
    show ?case by (intro wf_inv_image wf_lex_prod wf_less_than)
  next
    case (2 data st dn path' a)
    have key: "k \<in> fst ` set m" if "mget m k = Some v"
      for m :: "(string \<times> addr) list" and k v
      using that by (induction m) (auto split: if_splits)
    have "dn \<in> ?K data"
      using key[OF 2(3)] by simp
    then have "dn \<in> ?K data - set (visited st)" using 2(2) by simp
    then have "card (?K data - set (visited st) - {dn}) < card (?K data - set (visited st))"
      by (intro card_Diff1_less) auto
    moreover have "?K data - set (visited (enter st dn)) = ?K data - set (visited st) - {dn}"
      by (auto simp: enter_def)
    ultimately show ?case by simp
  next
    case (3 data st ref refs path')
    then show ?case by simp
  next
    case (4 data st ref refs path' r)
    have "set (visited st) \<subseteq> set (visited (snd r))"
      using mono(1)[OF 4(3)] 4(1) by simp
    then have "card (?K data - set (visited (snd r))) \<le> card (?K data - set (visited st))"
      by (intro card_mono) auto
    then show ?case by auto
  qed
qed

declare hasCycle.simps [simp del]

text \<open>
  The pass: \<open>hasCycle\<close> is started from every key of the registry that is not yet visited;
  the conflicts it pushes go to the global list.
\<close>

definition startState :: "ServerData \<Rightarrow> CycleState" where
  "startState data = \<lparr> visited = [], recursionStack = [], reported = conflicts data \<rparr>"

fun scanKeys :: "ServerData \<Rightarrow> CycleState \<Rightarrow> string list \<Rightarrow> CycleState" where
  "scanKeys data st [] = st"
| "scanKeys data st (k # ks) =
     scanKeys data (if k \<in> set (visited st) then st else snd (hasCycle data st k [])) ks"

definition detectCircularDependencies :: "ServerData \<Rightarrow> ServerData" where
  "detectCircularDependencies data =
     data\<lparr> conflicts := reported (scanKeys data (startState data) (map fst (defs data))) \<rparr>"

definition fullyVisited :: "ServerData \<Rightarrow> string list" where
  "fullyVisited data = visited (scanKeys data (startState data) (map fst (defs data)))"

section \<open>Fixtures for the concrete runs\<close>

definition exCore :: ModInfo where
  "exCore = \<lparr> packageId = ''core'', name = ''Core'', loadOrder = 0, path = ''/data/core'',
              isCore = True, isDLC = False \<rparr>"

definition exMod :: ModInfo where
  "exMod = \<lparr> packageId = ''some.mod'', name = ''SomeMod'', loadOrder = 1, path = ''/mods/some'',
             isCore = False, isDLC = False \<rparr>"

text \<open>An abstract template \<open><ThingDef Name="BaseThing" Abstract="True"/>\<close> as parsed.\<close>

definition exAbstractDef :: jsval where
  "exAbstractDef = Obj [(''@_Name'', Str ''BaseThing''), (''@_Abstract'', Str ''True'')]"

definition exAbstractRegistry :: ServerData where
  "exAbstractRegistry = registerDef ''ThingDef'' exAbstractDef ''Defs/base.xml'' exCore emptyData"

text \<open>\<open>Foo\<close> defined as a \<open>ThingDef\<close> by the core and as a \<open>TerrainDef\<close> by a later mod.\<close>

definition exRetypedRegistry :: ServerData where
  "exRetypedRegistry =
     registerDef ''TerrainDef'' (Obj [(''defName'', Str ''Foo'')]) ''Defs/b.xml'' exMod
       (registerDef ''ThingDef'' (Obj [(''defName'', Str ''Foo'')]) ''Defs/a.xml'' exCore emptyData)"

text \<open>\<open>A\<close> names \<open>B\<close> as its parent and \<open>B\<close> names \<open>A\<close>.\<close>

definition exCyclicRegistry :: ServerData where
  "exCyclicRegistry =
     registerDef ''ThingDef'' (Obj [(''defName'', Str ''B''), (''@_ParentName'', Str ''A'')])
       ''Defs/b.xml'' exCore
       (registerDef ''ThingDef'' (Obj [(''defName'', Str ''A''), (''@_ParentName'', Str ''B'')])
          ''Defs/a.xml'' exCore emptyData)"

text \<open>Three definitions with the reference edges \<open>A \<rightarrow> B\<close>, \<open>B \<rightarrow> C\<close>, \<open>C \<rightarrow> A\<close>.\<close>

definition exRefDef :: "string \<Rightarrow> string \<Rightarrow> RimWorldDef" where
  "exRefDef n t =
     emptyHeapDef\<lparr> defName := n, deftype := ''ThingDef'', content := Obj [(''defName'', Str n)],
                    modInfo := exCore,
                    outgoingRefs := [\<lparr> fromDef = n, toDef = t, referenceType = ''thingDef'',
                                      rpath = ''thingDef'' \<rparr>] \<rparr>"

definition exCycleData :: ServerData where
  "exCycleData =
     emptyData\<lparr> dheap := (\<lambda>a. if a = 0 then exRefDef ''A'' ''B''
                               else if a = 1 then exRefDef ''B'' ''C''
                               else exRefDef ''C'' ''A''),
                 dnext := 3,
                 defs := [(''A'', 0), (''B'', 1), (''C'', 2)] \<rparr>"

text \<open>
  One definition \<open>Foo\<close> of the core and a list of patch operations, all resolved to \<open>Foo\<close>
  (as \<open>parsePatchOperation\<close> does for a location expression that starts with
  \<open>Defs/ThingDef[defName='Foo']\<close>).
\<close>

definition exPatch :: "ModInfo \<Rightarrow> string \<Rightarrow> string \<Rightarrow> jsval \<Rightarrow> int \<Rightarrow> PatchOperation" where
  "exPatch m op xp w n =
     \<lparr> pid = packageId m @ ''_patch.xml_'' @ showNat (nat n), pmod = m,
       pfilePath = ''Patches/patch.xml'', operation = op, xpath = xp, pvalue = w,
       success = None, perror = None, targetDef = Some ''Foo'', porder = n,
       conditions = None, appliedTo = Some [] \<rparr>"

definition exFooData :: "jsval \<Rightarrow> PatchOperation list \<Rightarrow> ServerData" where
  "exFooData d ps =
     (registerDef ''ThingDef'' d ''Defs/foo.xml'' exCore emptyData)
       \<lparr> pheap := (\<lambda>a. if a < length ps then ps ! a else emptyHeapPatch),
         globalPatches := [0..<length ps],
         mods := [(''core'', exCore), (''some.mod'', exMod)] \<rparr>"




text \<open>One source adds a value twice at one location of \<open>Foo\<close>; then two sources do.\<close>

definition exSameSourceData :: ServerData where
  "exSameSourceData =
     exFooData (Obj [(''defName'', Str ''Foo'')])
       [exPatch exMod ''Add'' ''Defs/ThingDef[defName='Foo']/statBases/Mass'' (Str ''1'') 0,
        exPatch exMod ''Add'' ''Defs/ThingDef[defName='Foo']/statBases/Mass'' (Str ''2'') 1]"

definition exTwoSourcesData :: ServerData where
  "exTwoSourcesData =
     exFooData (Obj [(''defName'', Str ''Foo'')])
       [exPatch exMod ''Add'' ''Defs/ThingDef[defName='Foo']/statBases/Mass'' (Str ''2'') 0,
        exPatch exCore ''Add'' ''Defs/ThingDef[defName='Foo']/statBases/Mass'' (Str ''1'') 0]"

text \<open>\<open>Foo\<close> has a list of components; a mod adds one with the array marker.\<close>

definition exCompsContent :: jsval where
  "exCompsContent =
     Obj [(''defName'', Str ''Foo''), (''comps'', Obj [(''li'', Arr [Str ''CompA''] [])])]"

definition exArrayMarkerData :: ServerData where
  "exArrayMarkerData =
     exFooData exCompsContent
       [exPatch exMod ''Add'' ''Defs/ThingDef[defName='Foo']/comps[]'' (Str ''CompB'') 0]"

section \<open>Properties of the registry\<close>

lemma mget_mset: "mget (mset k v m) k' = (if k' = k then Some v else mget m k')"
  by (induction m) auto

lemma registerDef_named:
  assumes "truthy d" "typeofObject d" "defNameOf d = Some n"
  shows "dnext (registerDef t d p m s) = Suc (dnext s)"
    and "dheap (registerDef t d p m s)
         = (dheap s)(dnext s := newRimDef n t d p m (raisedConflicts s n m))"
    and "conflicts (registerDef t d p m s) = conflicts s @ raisedConflicts s n m"
    and "defs (registerDef t d p m s)
         = (if displaces s n m then mset n (dnext s) (defs s) else defs s)"
    and "abstractDefs (registerDef t d p m s)
         = (if isAbstractOf d then mset n (dnext s) (abstractDefs s) else abstractDefs s)"
  using assms by (simp_all add: registerDef_def Let_def installCurrent_def)

lemma registerDef_type_bucket:
  assumes "truthy d" "typeofObject d" "defNameOf d = Some n" "displaces s n m"
  shows "dnext s \<in> set (bucket (defsByType (registerDef t d p m s)) t)"
  using assms by (simp add: registerDef_def Let_def installCurrent_def bucket_def mget_mset)

text \<open>
  C1. Two definitions of one name \<open>n\<close>, from sources with different package ids, are
  registered one after the other in a registry that holds no \<open>n\<close>. Afterwards the holder of
  \<open>n\<close> is the second definition when its source's rank is strictly greater, and the first
  one otherwise (equal ranks keep the first seen); the registrations append exactly one
  conflict to the global list, an override of severity warning naming both sources.
\<close>

theorem C1_override_by_priority:
  assumes "defNameOf d1 = Some n" "defNameOf d2 = Some n"
    "truthy d1" "typeofObject d1" "truthy d2" "typeofObject d2"
    "packageId m1 \<noteq> packageId m2" "mget (defs s) n = None"
  shows "(let s2 = registerDef t2 d2 p2 m2 (registerDef t1 d1 p1 m1 s);
              a1 = dnext s; a2 = Suc (dnext s)
          in mget (defs s2) n = Some (if loadOrder m1 < loadOrder m2 then a2 else a1)
           \<and> modInfo (dheap s2 a1) = m1 \<and> content (dheap s2 a1) = d1
           \<and> modInfo (dheap s2 a2) = m2 \<and> content (dheap s2 a2) = d2
           \<and> conflicts s2 = conflicts s @ [overrideConflict n m1 m2]
           \<and> ctype (overrideConflict n m1 m2) = Override
           \<and> severity (overrideConflict n m1 m2) = Warning
           \<and> cmods (overrideConflict n m1 m2) = [m1, m2])"
proof -
  let ?s1 = "registerDef t1 d1 p1 m1 s"
  have d1: "displaces s n m1" and r1: "raisedConflicts s n m1 = []"
    using assms(8) by (simp_all add: displaces_def raisedConflicts_def)
  have defs1: "mget (defs ?s1) n = Some (dnext s)"
    using assms d1 by (simp add: registerDef_named mget_mset)
  have h1: "dheap ?s1 (dnext s) = newRimDef n t1 d1 p1 m1 []"
    using assms r1 by (simp add: registerDef_named)
  have r2: "raisedConflicts ?s1 n m2 = [overrideConflict n m1 m2]"
    using defs1 h1 assms(7) by (simp add: raisedConflicts_def newRimDef_def)
  have d2: "displaces ?s1 n m2 = (loadOrder m1 < loadOrder m2)"
    using defs1 h1 by (simp add: displaces_def newRimDef_def)
  have n1: "dnext ?s1 = Suc (dnext s)" using assms by (simp add: registerDef_named)
  have c1: "conflicts ?s1 = conflicts s" using assms r1 by (simp add: registerDef_named)
  have a: "mget (defs (registerDef t2 d2 p2 m2 ?s1)) n
           = Some (if loadOrder m1 < loadOrder m2 then Suc (dnext s) else dnext s)"
    using assms defs1 d2 n1 by (simp add: registerDef_named[where s = ?s1] mget_mset)
  have b: "dheap (registerDef t2 d2 p2 m2 ?s1)
           = (dheap ?s1)(Suc (dnext s) := newRimDef n t2 d2 p2 m2 [overrideConflict n m1 m2])"
    using assms r2 n1 by (simp add: registerDef_named[where s = ?s1])
  have c: "conflicts (registerDef t2 d2 p2 m2 ?s1) = conflicts s @ [overrideConflict n m1 m2]"
    using assms r2 c1 by (simp add: registerDef_named[where s = ?s1])
  show ?thesis
    using a b c h1 by (simp add: Let_def newRimDef_def overrideConflict_def)
qed

theorem C1_override_by_priority_witness:
  "defNameOf (Obj [(''defName'', Str ''Foo''), (''a'', Str ''1'')]) = Some ''Foo''
   \<and> defNameOf (Obj [(''defName'', Str ''Foo''), (''a'', Str ''2'')]) = Some ''Foo''
   \<and> packageId exCore \<noteq> packageId exMod
   \<and> mget (defs emptyData) ''Foo'' = None
   \<and> loadOrder exCore < loadOrder exMod
   \<and> (let s2 = registerDef ''ThingDef'' (Obj [(''defName'', Str ''Foo''), (''a'', Str ''2'')])
                 ''Defs/b.xml'' exMod
                 (registerDef ''ThingDef'' (Obj [(''defName'', Str ''Foo''), (''a'', Str ''1'')])
                    ''Defs/a.xml'' exCore emptyData)
       in mget (defs s2) ''Foo'' = Some 1
        \<and> content (dheap s2 1) = Obj [(''defName'', Str ''Foo''), (''a'', Str ''2'')]
        \<and> conflicts s2 = [overrideConflict ''Foo'' exCore exMod])"
proof -
  let ?d1 = "Obj [(''defName'', Str ''Foo''), (''a'', Str ''1'')]"
  let ?d2 = "Obj [(''defName'', Str ''Foo''), (''a'', Str ''2'')]"
  have n1: "defNameOf ?d1 = Some ''Foo''" and n2: "defNameOf ?d2 = Some ''Foo''"
    by code_simp+
  have o: "truthy ?d1" "typeofObject ?d1" "truthy ?d2" "typeofObject ?d2" by simp_all
  have p: "packageId exCore \<noteq> packageId exMod" by (simp add: exCore_def exMod_def)
  have e: "mget (defs emptyData) ''Foo'' = None" "dnext emptyData = 0" "conflicts emptyData = []"
    by (simp_all add: emptyData_def)
  have l: "loadOrder exCore < loadOrder exMod" by (simp add: exCore_def exMod_def)
  show ?thesis
    using C1_override_by_priority[OF n1 n2 o p e(1),
        of "''ThingDef''" "''Defs/b.xml''" "''ThingDef''" "''Defs/a.xml''"]
      n1 n2 p e l
    by (simp add: Let_def)
qed

text \<open>
  C6, as stated: a definition registered with the abstract flag is held only in the
  abstract lookup. It fails on the first registration of an abstract template: the
  template becomes the current holder of its name, is listed in its type bucket, and is
  what the name lookup returns.
\<close>

theorem C6_abstract_is_current_counterexample:
  "abstract (dheap exAbstractRegistry 0)
   \<and> mget (defs exAbstractRegistry) ''BaseThing'' = Some 0
   \<and> bucket (defsByType exAbstractRegistry) ''ThingDef'' = [0]
   \<and> mget (abstractDefs exAbstractRegistry) ''BaseThing'' = Some 0
   \<and> lookupDef exAbstractRegistry ''BaseThing'' = Some 0"
  by code_simp

text \<open>
  C6, amended: a definition registered with the abstract flag is always stored in the
  abstract lookup, and it is also installed as the current holder of its name (and listed
  in its type bucket) whenever the name has no current holder or its source's rank is
  strictly higher than the holder's; otherwise the current holder stays. The name lookup
  returns the current holder or, failing that, the entry of the abstract lookup.
\<close>

theorem C6_abstract_registration:
  assumes "truthy d" "typeofObject d" "defNameOf d = Some n" "isAbstractOf d"
  shows "(let s' = registerDef t d p m s; a = dnext s
          in abstract (dheap s' a) \<and> content (dheap s' a) = d
           \<and> mget (abstractDefs s') n = Some a
           \<and> mget (defs s') n = (if displaces s n m then Some a else mget (defs s) n)
           \<and> (displaces s n m \<longrightarrow> a \<in> set (bucket (defsByType s') t))
           \<and> lookupDef s' n = (if displaces s n m then Some a else mget (defs s) n)
           \<and> (\<forall>k. lookupDef s' k
                   = (case mget (defs s') k of Some c \<Rightarrow> Some c
                      | None \<Rightarrow> mget (abstractDefs s') k)))"
proof -
  let ?s' = "registerDef t d p m s"
  have h: "dheap ?s' (dnext s) = newRimDef n t d p m (raisedConflicts s n m)"
    using assms by (simp add: registerDef_named)
  have ab: "mget (abstractDefs ?s') n = Some (dnext s)"
    using assms by (simp add: registerDef_named mget_mset)
  have cur: "mget (defs ?s') n = (if displaces s n m then Some (dnext s) else mget (defs s) n)"
    using assms by (simp add: registerDef_named mget_mset)
  have keep: "\<not> displaces s n m \<Longrightarrow> mget (defs s) n \<noteq> None"
    by (auto simp: displaces_def split: option.splits)
  have lk: "lookupDef ?s' n = (if displaces s n m then Some (dnext s) else mget (defs s) n)"
    using cur keep by (auto simp: lookupDef_def split: option.splits)
  have tb: "displaces s n m \<longrightarrow> dnext s \<in> set (bucket (defsByType ?s') t)"
    using assms registerDef_type_bucket by blast
  show ?thesis
    using h ab cur lk tb assms(4) by (simp add: Let_def newRimDef_def lookupDef_def)
qed

theorem C6_abstract_registration_witness:
  "truthy exAbstractDef \<and> typeofObject exAbstractDef
   \<and> defNameOf exAbstractDef = Some ''BaseThing'' \<and> isAbstractOf exAbstractDef
   \<and> displaces emptyData ''BaseThing'' exCore
   \<and> (let s' = registerDef ''ThingDef'' exAbstractDef ''Defs/base.xml'' exCore emptyData
       in abstract (dheap s' 0) \<and> mget (abstractDefs s') ''BaseThing'' = Some 0
        \<and> mget (defs s') ''BaseThing'' = Some 0 \<and> lookupDef s' ''BaseThing'' = Some 0)"
proof -
  have o: "truthy exAbstractDef" "typeofObject exAbstractDef"
    by (simp_all add: exAbstractDef_def)
  have n: "defNameOf exAbstractDef = Some ''BaseThing''" by code_simp
  have i: "isAbstractOf exAbstractDef" by code_simp
  have e: "displaces emptyData ''BaseThing'' exCore" "dnext emptyData = 0"
    by (simp_all add: displaces_def emptyData_def)
  show ?thesis
    using C6_abstract_registration[OF o n i, of "''ThingDef''" "''Defs/base.xml''" exCore emptyData]
      o n i e
    by (simp add: Let_def)
qed

lemma registerDef_other_buckets:
  "t' \<noteq> t \<Longrightarrow> mget (defsByType (registerDef t d p m s)) t' = mget (defsByType s) t'"
  by (simp add: registerDef_def installCurrent_def Let_def mget_mset split: option.splits)

text \<open>
  C7, at the failing input: \<open>Foo\<close> is registered as a \<open>ThingDef\<close> by the core and then as
  a \<open>TerrainDef\<close> by a source of higher rank. The new definition is the holder, but the
  displaced one is still listed in the \<open>ThingDef\<close> bucket: the removal searches the bucket
  of the new definition's type, and a registration never touches the bucket of another
  type (\<open>registerDef_other_buckets\<close>).
\<close>

theorem C7_displaced_stays_in_old_bucket:
  "mget (defs exRetypedRegistry) ''Foo'' = Some 1
   \<and> modInfo (dheap exRetypedRegistry 0) = exCore
   \<and> deftype (dheap exRetypedRegistry 0) = ''ThingDef''
   \<and> modInfo (dheap exRetypedRegistry 1) = exMod
   \<and> deftype (dheap exRetypedRegistry 1) = ''TerrainDef''
   \<and> defsByType exRetypedRegistry = [(''ThingDef'', [0]), (''TerrainDef'', [1])]"
  by code_simp



section \<open>Properties of the inheritance resolver\<close>

lemma exCyclic_facts:
  "lookupDef exCyclicRegistry ''A'' = Some 0" "parent (dheap exCyclicRegistry 0) = Str ''B''"
  "lookupDef exCyclicRegistry ''B'' = Some (Suc 0)"
  "parent (dheap exCyclicRegistry (Suc 0)) = Str ''A''"
  "map fst (defs exCyclicRegistry) = [''A'', ''B'']"
  by code_simp+

lemma resolve_self_parent_never_returns:
  assumes self: "lookupDef data n = Some a" "parent (dheap data a) = Str n" "n \<noteq> []"
    "n \<notin> set resolved"
  shows "resolve data resolved n = None"
proof -
  have never: "\<not> (d = data \<and> r = resolved \<and> m = n)" if ret: "resolve d r m = Some y" for d r m y
  proof (rule resolve.raw_induct[where P = "\<lambda>d r m y. \<not> (d = data \<and> r = resolved \<and> m = n)", OF _ ret],
      goal_cases)
    case (1 resolve' d r m y)
    show ?case
    proof
      assume "d = data \<and> r = resolved \<and> m = n"
      with 1(2) self obtain y' where "resolve' data resolved n = Some y'"
        by (auto split: bind_splits)
      with 1(1) show False by blast
    qed
  qed
  show ?thesis
  proof (cases "resolve data resolved n")
    case None
    then show ?thesis .
  next
    case (Some y)
    from never[OF Some] show ?thesis by simp
  qed
qed

lemma resolve_cyclic_never_returns:
  assumes ret: "resolve d r n = Some y"
  shows "\<not> (d = exCyclicRegistry \<and> r = [] \<and> (n = ''A'' \<or> n = ''B''))"
proof (rule resolve.raw_induct[where P = "\<lambda>d r n y. \<not> (d = exCyclicRegistry \<and> r = [] \<and> (n = ''A'' \<or> n = ''B''))", OF _ ret], goal_cases)
  case (1 resolve' d r n y)
  show ?case
  proof
    assume a: "d = exCyclicRegistry \<and> r = [] \<and> (n = ''A'' \<or> n = ''B'')"
    then consider "n = ''A''" | "n = ''B''" by blast
    then show False
    proof cases
      case A: 1
      with a 1(2) obtain y' where "resolve' exCyclicRegistry [] ''B'' = Some y'"
        by (auto simp: exCyclic_facts split: bind_splits)
      with 1(1) show False by blast
    next
      case B: 2
      with a 1(2) obtain y' where "resolve' exCyclicRegistry [] ''A'' = Some y'"
        by (auto simp: exCyclic_facts split: bind_splits)
      with 1(1) show False by blast
    qed
  qed
qed

text \<open>
  C2, at the failing input: \<open>A\<close> declares the parent \<open>B\<close> and \<open>B\<close> declares the parent
  \<open>A\<close>. Resolving \<open>A\<close> asks for \<open>B\<close>, which asks for \<open>A\<close> again with the same empty
  \<open>resolved\<close> set, and so on: no call returns, and the resolution of the registry does not
  return either. (Neither does the resolution of a definition that names itself as its
  parent, in any registry: \<open>resolve_self_parent_never_returns\<close>.)
\<close>

theorem C2_cyclic_parents_never_return:
  "resolve exCyclicRegistry [] ''A'' = None \<and> resolveInheritance exCyclicRegistry = None"
proof -
  have "resolve exCyclicRegistry [] ''A'' = None"
    using resolve_cyclic_never_returns[of exCyclicRegistry "[]" "''A''"]
    by (cases "resolve exCyclicRegistry [] ''A''") auto
  then show ?thesis
    by (simp add: resolveInheritance_def exCyclic_facts)
qed

lemma mergeProps_sentinels:
  "list_all (\<lambda>kv. snd kv = deletionSentinel) cs
   \<Longrightarrow> mergeProps merged cs = filter (\<lambda>kv. fst kv \<notin> fst ` set cs) merged"
proof (induction cs arbitrary: merged)
  case Nil
  then show ?case by simp
next
  case (Cons c cs)
  obtain k v where c: "c = (k, v)" by (cases c)
  with Cons.prems have v: "v = deletionSentinel" and rest: "list_all (\<lambda>kv. snd kv = deletionSentinel) cs"
    by simp_all
  have "mergeProps merged (c # cs) = mergeProps (mdelete k merged) cs"
    using c v by simp
  also have "\<dots> = filter (\<lambda>kv. fst kv \<notin> fst ` set cs) (mdelete k merged)"
    using Cons.IH[OF rest] .
  also have "\<dots> = filter (\<lambda>kv. fst kv \<notin> fst ` set (c # cs)) merged"
    using c by (auto simp: mdelete_def intro: filter_cong)
  finally show ?case .
qed

lemma mget_filter_keys:
  "mget (filter (\<lambda>kv. fst kv \<notin> K) ps) k = (if k \<in> K then None else mget ps k)"
  by (induction ps) auto

lemma resolve_no_parent:
  assumes "lookupDef data dn = Some a" "\<not> truthy (parent (dheap data a))" "dn \<notin> set resolved"
  shows "resolve data resolved dn = Some (content (dheap data a), data, resolved @ [dn])"
  using assms by (subst resolve.simps) (simp add: finishResolve_def)

lemma resolveAll_no_parents:
  assumes "\<And>k a. lookupDef data k = Some a \<Longrightarrow> \<not> truthy (parent (dheap data a))"
  shows "\<exists>r'. resolveAll data r ks = Some (data, r')"
proof (induction ks arbitrary: r)
  case Nil
  then show ?case by simp
next
  case (Cons k ks)
  have "\<exists>c r1. resolve data r k = Some (c, data, r1)"
  proof (cases "k \<in> set r")
    case True
    then show ?thesis by (subst resolve.simps) simp
  next
    case False
    show ?thesis
    proof (cases "lookupDef data k")
      case None
      with False show ?thesis by (subst resolve.simps) simp
    next
      case (Some a)
      with False assms[OF Some] show ?thesis by (simp add: resolve_no_parent)
    qed
  qed
  then obtain c r1 where "resolve data r k = Some (c, data, r1)" by blast
  with Cons.IH[of r1] show ?case by simp
qed

text \<open>
  C8. Resolving a definition that declares no parent leaves the whole registry, and so
  its content, unchanged (and when no definition declares a parent the resolution of the
  registry returns the registry as it was). Merging a child object all of whose values
  are the deletion sentinel into a parent object yields the parent's properties without
  the child's keys: those keys are gone, every other key keeps its value and its place.
\<close>

theorem C8_merge_laws:
  assumes "list_all (\<lambda>kv. snd kv = deletionSentinel) cs"
    and "lookupDef data dn = Some a" "\<not> truthy (parent (dheap data a))" "dn \<notin> set resolved"
  shows "resolve data resolved dn = Some (content (dheap data a), data, resolved @ [dn])
       \<and> ((\<forall>k b. lookupDef data k = Some b \<longrightarrow> \<not> truthy (parent (dheap data b)))
            \<longrightarrow> resolveInheritance data = Some data)
       \<and> mergeWithParent (Obj ps) (Obj cs) = Obj (filter (\<lambda>kv. fst kv \<notin> fst ` set cs) ps)
       \<and> (\<forall>k. objProp (mergeWithParent (Obj ps) (Obj cs)) k
               = (if k \<in> fst ` set cs then Undef else objProp (Obj ps) k))"
proof -
  have m: "mergeWithParent (Obj ps) (Obj cs) = Obj (filter (\<lambda>kv. fst kv \<notin> fst ` set cs) ps)"
    using mergeProps_sentinels[OF assms(1)] by simp
  have r: "resolveInheritance data = Some data"
    if "\<forall>k b. lookupDef data k = Some b \<longrightarrow> \<not> truthy (parent (dheap data b))"
  proof -
    from that obtain r' where "resolveAll data [] (map fst (defs data)) = Some (data, r')"
      using resolveAll_no_parents[of data "[]" "map fst (defs data)"] by blast
    then show ?thesis by (simp add: resolveInheritance_def)
  qed
  show ?thesis
    using m r resolve_no_parent[OF assms(2-4)]
    by (simp add: objProp_def mget_filter_keys)
qed

theorem C8_merge_laws_witness:
  "list_all (\<lambda>kv. snd kv = deletionSentinel) [(''hp'', Str ''Inherit.Remove'')]
   \<and> lookupDef exAbstractRegistry ''BaseThing'' = Some 0
   \<and> \<not> truthy (parent (dheap exAbstractRegistry 0))
   \<and> resolve exAbstractRegistry [] ''BaseThing''
       = Some (content (dheap exAbstractRegistry 0), exAbstractRegistry, [''BaseThing''])
   \<and> resolveInheritance exAbstractRegistry = Some exAbstractRegistry
   \<and> mergeWithParent (Obj [(''hp'', Str ''10''), (''tags'', Arr [Str ''x'', Str ''y''] [])])
         (Obj [(''hp'', Str ''Inherit.Remove'')])
       = Obj [(''tags'', Arr [Str ''x'', Str ''y''] [])]"
proof -
  let ?ps = "[(''hp'', Str ''10''), (''tags'', Arr [Str ''x'', Str ''y''] [])]"
  have s: "list_all (\<lambda>kv. snd kv = deletionSentinel) [(''hp'', Str ''Inherit.Remove'')]"
    by (simp add: deletionSentinel_def)
  have l: "lookupDef exAbstractRegistry ''BaseThing'' = Some 0"
    and p: "\<not> truthy (parent (dheap exAbstractRegistry 0))"
    by code_simp+
  have d: "defs exAbstractRegistry = [(''BaseThing'', 0)]"
    "abstractDefs exAbstractRegistry = [(''BaseThing'', 0)]"
    by code_simp+
  have all: "\<forall>k b. lookupDef exAbstractRegistry k = Some b
                \<longrightarrow> \<not> truthy (parent (dheap exAbstractRegistry b))"
    using p by (auto simp: lookupDef_def d split: if_splits)
  have n: "''BaseThing'' \<notin> set []" by simp
  show ?thesis
    using C8_merge_laws[OF s l p n, of ?ps] s l p all
    by simp
qed

section \<open>Properties of the cycle detection\<close>

lemma visited_distinct:
  "distinct (visited st) \<Longrightarrow> distinct (visited (snd (hasCycle data st dn p)))"
  "distinct (visited st) \<Longrightarrow> distinct (visited (snd (scanRefs data st refs p)))"
proof (induction data st dn p and data st refs p rule: hasCycle_scanRefs.induct)
  case (1 data st dn path')
  show ?case
  proof (cases "dn \<in> set (recursionStack st) \<or> dn \<in> set (visited st)")
    case True
    with 1(2) show ?thesis
      by (subst hasCycle.simps) (auto simp: reportCycle_def Let_def split: option.splits)
  next
    case False
    then have e: "distinct (visited (enter st dn))"
      using 1(2) by (simp add: enter_def)
    show ?thesis
    proof (cases "mget (defs data) dn")
      case None
      with False e show ?thesis
        by (subst hasCycle.simps) (simp add: leave_def)
    next
      case (Some a)
      have "distinct (visited (snd (scanRefs data (enter st dn) (outgoingRefs (dheap data a)) (path' @ [dn]))))"
        using 1(1)[OF _ _ Some e] False by simp
      with False Some show ?thesis
        by (subst hasCycle.simps) (simp add: leave_def Let_def)
    qed
  qed
next
  case (2 data st path')
  then show ?case by simp
next
  case (3 data st ref refs path')
  have h: "distinct (visited (snd (hasCycle data st (toDef ref) path')))"
    using 3(1)[OF 3(3)] .
  show ?case
  proof (cases "fst (hasCycle data st (toDef ref) path')")
    case True
    with h show ?thesis by (simp add: Let_def)
  next
    case False
    with 3(2)[OF refl False h] show ?thesis by (simp add: Let_def)
  qed
qed

lemma scanKeys_distinct:
  "distinct (visited st) \<Longrightarrow> distinct (visited (scanKeys data st ks))"
  by (induction ks arbitrary: st) (simp_all add: visited_distinct)

lemma scanKeys_all_visited:
  "set ks \<subseteq> set (visited st) \<Longrightarrow> scanKeys data st ks = st"
  by (induction ks) auto

lemma hasCycle_no_refs:
  assumes "dn \<notin> set (recursionStack st)" "dn \<notin> set (visited st)"
    and "\<And>a. mget (defs data) dn = Some a \<Longrightarrow> outgoingRefs (dheap data a) = []"
  shows "hasCycle data st dn p = (False, st\<lparr> visited := visited st @ [dn] \<rparr>)"
  using assms
  by (subst hasCycle.simps) (auto simp: enter_def leave_def split: option.splits)

lemma scanKeys_no_refs:
  assumes "\<And>k. k \<in> set ks \<Longrightarrow> k \<in> set (visited st) \<or>
             (k \<notin> set (recursionStack st)
              \<and> (\<forall>a. mget (defs data) k = Some a \<longrightarrow> outgoingRefs (dheap data a) = []))"
  shows "recursionStack (scanKeys data st ks) = recursionStack st
       \<and> reported (scanKeys data st ks) = reported st
       \<and> set (visited (scanKeys data st ks)) = set (visited st) \<union> set ks"
  using assms
proof (induction ks arbitrary: st)
  case Nil
  then show ?case by simp
next
  case (Cons k ks)
  show ?case
  proof (cases "k \<in> set (visited st)")
    case True
    have "recursionStack (scanKeys data st ks) = recursionStack st
       \<and> reported (scanKeys data st ks) = reported st
       \<and> set (visited (scanKeys data st ks)) = set (visited st) \<union> set ks"
      by (rule Cons.IH) (use Cons.prems in auto)
    with True show ?thesis by auto
  next
    case False
    let ?st' = "st\<lparr> visited := visited st @ [k] \<rparr>"
    from False Cons.prems[of k]
    have k: "k \<notin> set (recursionStack st)"
      "\<And>a. mget (defs data) k = Some a \<Longrightarrow> outgoingRefs (dheap data a) = []"
      by auto
    have step: "hasCycle data st k [] = (False, ?st')"
      using hasCycle_no_refs[OF k(1) False k(2)] by simp
    have "recursionStack (scanKeys data ?st' ks) = recursionStack ?st'
       \<and> reported (scanKeys data ?st' ks) = reported ?st'
       \<and> set (visited (scanKeys data ?st' ks)) = set (visited ?st') \<union> set ks"
      by (rule Cons.IH) (use Cons.prems in auto)
    with False step show ?thesis by auto
  qed
qed

lemma mget_in_set: "mget m k = Some v \<Longrightarrow> (k, v) \<in> set m"
  by (induction m) (auto split: if_splits)

lemma three_cycle:
  assumes d: "a \<noteq> b" "b \<noteq> c" "a \<noteq> c"
    and keys: "map fst (defs data) = pre @ a # post" "a \<notin> set pre" "b \<notin> set pre" "c \<notin> set pre"
    and la: "mget (defs data) a = Some aa" and lb: "mget (defs data) b = Some ab"
    and lc: "mget (defs data) c = Some ac"
    and ra: "map toDef (outgoingRefs (dheap data aa)) = [b]"
    and rb: "map toDef (outgoingRefs (dheap data ab)) = [c]"
    and rc: "map toDef (outgoingRefs (dheap data ac)) = [a]"
    and others: "\<And>k ak. mget (defs data) k = Some ak \<Longrightarrow> k \<noteq> a \<Longrightarrow> k \<noteq> b \<Longrightarrow> k \<noteq> c
                   \<Longrightarrow> outgoingRefs (dheap data ak) = []"
  shows "conflicts (detectCircularDependencies data)
         = conflicts data @ [cycleConflict (modInfo (dheap data aa)) a [a, b, c, a]]"
proof -
  obtain rab where rab: "outgoingRefs (dheap data aa) = [rab]" "toDef rab = b"
    using ra by (cases "outgoingRefs (dheap data aa)") auto
  obtain rbc where rbc: "outgoingRefs (dheap data ab) = [rbc]" "toDef rbc = c"
    using rb by (cases "outgoingRefs (dheap data ab)") auto
  obtain rca where rca: "outgoingRefs (dheap data ac) = [rca]" "toDef rca = a"
    using rc by (cases "outgoingRefs (dheap data ac)") auto
  let ?R = "conflicts data"
  define sp where "sp = scanKeys data (startState data) pre"
  have "recursionStack sp = recursionStack (startState data)
       \<and> reported sp = reported (startState data)
       \<and> set (visited sp) = set (visited (startState data)) \<union> set pre"
    unfolding sp_def
    by (rule scanKeys_no_refs) (use keys others in \<open>auto simp: startState_def\<close>)
  then have sp: "recursionStack sp = []" "reported sp = ?R" "set (visited sp) = set pre"
    by (simp_all add: startState_def)
  define V where "V = visited sp"
  have V: "a \<notin> set V" "b \<notin> set V" "c \<notin> set V"
    using sp(3) keys by (simp_all add: V_def)
  have sp_eq: "sp = \<lparr> visited = V, recursionStack = [], reported = ?R \<rparr>"
    using sp by (simp add: V_def)
  let ?s3 = "\<lparr> visited = V @ [a, b, c], recursionStack = [a, b, c], reported = ?R \<rparr>"
  let ?s2 = "\<lparr> visited = V @ [a, b], recursionStack = [a, b], reported = ?R \<rparr>"
  let ?s1 = "\<lparr> visited = V @ [a], recursionStack = [a], reported = ?R \<rparr>"
  let ?fin = "\<lparr> visited = V @ [a, b, c], recursionStack = [a, b, c],
               reported = ?R @ [cycleConflict (modInfo (dheap data aa)) a [a, b, c, a]] \<rparr>"
  have h3: "hasCycle data ?s3 a [a, b, c] = (True, ?fin)"
    using la by (subst hasCycle.simps) (simp add: reportCycle_def cycleConflict_def sliceFrom_def)
  have h2: "hasCycle data ?s2 c [a, b] = (True, ?fin)"
    using d V lc rca h3 by (subst hasCycle.simps) (simp add: enter_def)
  have h1: "hasCycle data ?s1 b [a] = (True, ?fin)"
    using d V lb rbc h2 by (subst hasCycle.simps) (simp add: enter_def)
  have h0: "hasCycle data sp a [] = (True, ?fin)"
    using d V la rab h1 by (subst hasCycle.simps) (simp add: enter_def sp_eq)
  have split: "scanKeys data st (xs @ ys) = scanKeys data (scanKeys data st xs) ys" for st xs ys
    by (induction xs arbitrary: st) simp_all
  have "scanKeys data (startState data) (pre @ a # post) = scanKeys data sp (a # post)"
    by (simp add: split sp_def)
  also have "\<dots> = scanKeys data ?fin post"
    using h0 V by (simp add: sp_eq)
  finally have run: "scanKeys data (startState data) (pre @ a # post) = scanKeys data ?fin post" .
  have "recursionStack (scanKeys data ?fin post) = recursionStack ?fin
       \<and> reported (scanKeys data ?fin post) = reported ?fin
       \<and> set (visited (scanKeys data ?fin post)) = set (visited ?fin) \<union> set post"
    by (rule scanKeys_no_refs) (use others in auto)
  then have "reported (scanKeys data ?fin post)
             = ?R @ [cycleConflict (modInfo (dheap data aa)) a [a, b, c, a]]"
    by simp
  with run show ?thesis
    using keys(1) by (simp add: detectCircularDependencies_def)
qed

text \<open>
  C9. The registry holds the edges \<open>a \<rightarrow> b\<close>, \<open>b \<rightarrow> c\<close>, \<open>c \<rightarrow> a\<close> between three different
  names and no other edge; \<open>a\<close> is the first of the three in the key order of the registry
  (the three names play the same part, so this fixes only their names). Detection appends
  exactly one conflict: a circular dependency of severity error whose description lists
  \<open>a\<close>, \<open>b\<close>, \<open>c\<close> and \<open>a\<close> again. On every registry the log of full visits has no name
  twice.
\<close>

theorem C9_three_cycle_reported_once:
  assumes "a \<noteq> b" "b \<noteq> c" "a \<noteq> c"
    and "map fst (defs data) = pre @ a # post" "a \<notin> set pre" "b \<notin> set pre" "c \<notin> set pre"
    and "mget (defs data) a = Some aa" "mget (defs data) b = Some ab" "mget (defs data) c = Some ac"
    and "map toDef (outgoingRefs (dheap data aa)) = [b]"
    and "map toDef (outgoingRefs (dheap data ab)) = [c]"
    and "map toDef (outgoingRefs (dheap data ac)) = [a]"
    and "list_all (\<lambda>e. fst e \<in> set [a, b, c] \<or> outgoingRefs (dheap data (snd e)) = []) (defs data)"
  shows "conflicts (detectCircularDependencies data)
           = conflicts data @ [cycleConflict (modInfo (dheap data aa)) a [a, b, c, a]]
       \<and> ctype (cycleConflict (modInfo (dheap data aa)) a [a, b, c, a]) = Circular_dependency
       \<and> severity (cycleConflict (modInfo (dheap data aa)) a [a, b, c, a]) = Error
       \<and> description (cycleConflict (modInfo (dheap data aa)) a [a, b, c, a])
           = ''Circular dependency: '' @ a @ '' -> '' @ b @ '' -> '' @ c @ '' -> '' @ a
       \<and> distinct (fullyVisited anyData)"
proof -
  have others: "outgoingRefs (dheap data ak) = []"
    if "mget (defs data) k = Some ak" "k \<noteq> a" "k \<noteq> b" "k \<noteq> c" for k ak
  proof -
    have "(k, ak) \<in> set (defs data)" using that(1) by (rule mget_in_set)
    with assms(14) have "fst (k, ak) \<in> set [a, b, c] \<or> outgoingRefs (dheap data (snd (k, ak))) = []"
      unfolding list_all_iff by blast
    with that show ?thesis by simp
  qed
  have "conflicts (detectCircularDependencies data)
           = conflicts data @ [cycleConflict (modInfo (dheap data aa)) a [a, b, c, a]]"
    using assms(1-13) others by (rule three_cycle)
  moreover have "distinct (fullyVisited anyData)"
    unfolding fullyVisited_def by (rule scanKeys_distinct) (simp add: startState_def)
  ultimately show ?thesis
    by (simp add: cycleConflict_def)
qed

theorem C9_three_cycle_reported_once_witness:
  "map fst (defs exCycleData) = [] @ ''A'' # [''B'', ''C'']
   \<and> mget (defs exCycleData) ''A'' = Some 0 \<and> mget (defs exCycleData) ''B'' = Some 1
   \<and> mget (defs exCycleData) ''C'' = Some 2
   \<and> map toDef (outgoingRefs (dheap exCycleData 0)) = [''B'']
   \<and> map toDef (outgoingRefs (dheap exCycleData 1)) = [''C'']
   \<and> map toDef (outgoingRefs (dheap exCycleData 2)) = [''A'']
   \<and> conflicts (detectCircularDependencies exCycleData)
       = [cycleConflict exCore ''A'' [''A'', ''B'', ''C'', ''A'']]
   \<and> description (cycleConflict exCore ''A'' [''A'', ''B'', ''C'', ''A''])
       = ''Circular dependency: A -> B -> C -> A''
   \<and> distinct (fullyVisited exCycleData)"
proof -
  have k: "map fst (defs exCycleData) = [] @ ''A'' # [''B'', ''C'']"
    by (simp add: exCycleData_def)
  have l: "mget (defs exCycleData) ''A'' = Some 0" "mget (defs exCycleData) ''B'' = Some 1"
    "mget (defs exCycleData) ''C'' = Some 2"
    by (simp_all add: exCycleData_def)
  have r: "map toDef (outgoingRefs (dheap exCycleData 0)) = [''B'']"
    "map toDef (outgoingRefs (dheap exCycleData 1)) = [''C'']"
    "map toDef (outgoingRefs (dheap exCycleData 2)) = [''A'']"
    by (simp_all add: exCycleData_def exRefDef_def)
  have o: "list_all (\<lambda>e. fst e \<in> set [''A'', ''B'', ''C'']
                        \<or> outgoingRefs (dheap exCycleData (snd e)) = []) (defs exCycleData)"
    by (simp add: exCycleData_def)
  have m: "modInfo (dheap exCycleData 0) = exCore" "conflicts exCycleData = []"
    by (simp_all add: exCycleData_def exRefDef_def emptyData_def)
  have d: "''A'' \<noteq> ''B''" "''B'' \<noteq> ''C''" "''A'' \<noteq> ''C''" by simp_all
  have p: "''A'' \<notin> set []" "''B'' \<notin> set []" "''C'' \<notin> set []" by simp_all
  show ?thesis
    using C9_three_cycle_reported_once[OF d k p l r o, of exCycleData] k l r m
    by simp
qed

section \<open>Properties of the patch engine\<close>














lemma collisionsOf_pair:
  "xpathKey p1 = xpathKey p2 \<Longrightarrow> collisionsOf [p1, p2] = [collision (xpathKey p1) [p1, p2]]"
  by (simp add: collisionsOf_def)

lemma collision_same_source:
  "pmod p1 = pmod p2 \<Longrightarrow> cmods (collision k [p1, p2]) = [pmod p1]"
  by (simp add: collision_def setAdd_def)

text \<open>
  C4, at the failing input: one source adds a value twice at one location of \<open>Foo\<close>. Both
  operations succeed, and the pass records a patch collision for the group although the
  group has a single source; the conflict names that source alone: a group of two
  operations is reported whatever their sources (\<open>collisionsOf_pair\<close>). With the two
  operations coming from two sources the pass records one collision naming both.
\<close>

theorem C4_single_source_collision:
  "map success (map (pheap (applyPatches exSameSourceData)) [0, 1]) = [Some True, Some True]
   \<and> map ctype (conflicts (applyPatches exSameSourceData)) = [Patch_collision]
   \<and> map severity (conflicts (applyPatches exSameSourceData)) = [Warning]
   \<and> map cmods (conflicts (applyPatches exSameSourceData)) = [[exMod]]
   \<and> map ctype (conflicts (applyPatches exTwoSourcesData)) = [Patch_collision]
   \<and> map cmods (conflicts (applyPatches exTwoSourcesData)) = [[exCore, exMod]]"
  by code_simp

text \<open>
  What \<open>xpathToPath\<close> leaves of the brackets. In a text without line terminator every
  \<open>[\<close> that is followed by a \<open>]\<close> opens a bracket group, and the group is removed; so in
  the result no \<open>[\<close> is followed by a \<open>]\<close> anywhere, no part of the path ends with the
  array marker, and \<open>addToContent\<close> does exactly what \<open>replaceInContent\<close> does.
\<close>

lemma closeBracket_Some:
  "closeBracket cs = Some rest \<Longrightarrow> \<exists>pre. cs = pre @ CHR '']'' # rest"
proof (induction cs)
  case Nil
  then show ?case by simp
next
  case (Cons c cs)
  show ?case
  proof (cases "c = CHR '']''")
    case True
    with Cons.prems show ?thesis by auto
  next
    case False
    with Cons.prems have "closeBracket cs = Some rest" by (simp split: if_splits)
    then obtain pre where "cs = pre @ CHR '']'' # rest" using Cons.IH by blast
    then have "c # cs = (c # pre) @ CHR '']'' # rest" by simp
    then show ?thesis by blast
  qed
qed

lemma closeBracket_None:
  "list_all (\<lambda>c. \<not> isLineTerminator c) cs \<Longrightarrow> closeBracket cs = None \<Longrightarrow> CHR '']'' \<notin> set cs"
  by (induction cs) (auto split: if_splits)

lemma set_stripBrackets: "set (stripBrackets s) \<subseteq> set s"
proof (induction s rule: stripBrackets.induct)
  case 1
  then show ?case by simp
next
  case (2 c cs)
  show ?case
  proof (cases "c = CHR ''[''")
    case False
    with 2 show ?thesis by auto
  next
    case True
    show ?thesis
    proof (cases "closeBracket cs")
      case None
      with True 2 show ?thesis by auto
    next
      case (Some rest)
      then obtain pre where "cs = pre @ CHR '']'' # rest" using closeBracket_Some by blast
      then have "set rest \<subseteq> set cs" by auto
      with True Some 2(2)[OF True Some] show ?thesis by auto
    qed
  qed
qed

lemma stripBrackets_bracketFree:
  "list_all (\<lambda>c. \<not> isLineTerminator c) s \<Longrightarrow> bracketFree (stripBrackets s)"
proof (induction s rule: stripBrackets.induct)
  case 1
  then show ?case by simp
next
  case (2 c cs)
  from "2.prems" have lt: "list_all (\<lambda>c. \<not> isLineTerminator c) cs" by simp
  show ?case
  proof (cases "c = CHR ''[''")
    case False
    with 2 lt show ?thesis by simp
  next
    case True
    show ?thesis
    proof (cases "closeBracket cs")
      case None
      have "CHR '']'' \<notin> set cs" using closeBracket_None[OF lt None] .
      then have "CHR '']'' \<notin> set (stripBrackets cs)" using set_stripBrackets by blast
      with True None 2(1)[OF True None lt] show ?thesis by simp
    next
      case (Some rest)
      then obtain pre where "cs = pre @ CHR '']'' # rest" using closeBracket_Some by blast
      with lt have "list_all (\<lambda>c. \<not> isLineTerminator c) rest" by simp
      with True Some 2(2)[OF True Some] show ?thesis by simp
    qed
  qed
qed

lemma bracketFree_map:
  "bracketFree s \<Longrightarrow> bracketFree (map (\<lambda>c. if c = CHR ''/'' then CHR ''.'' else c) s)"
  by (induction s) (auto split: if_splits)

lemma bracketFree_filter: "bracketFree s \<Longrightarrow> bracketFree (filter P s)"
  by (induction s) auto

lemma bracketFree_dropWhile: "bracketFree s \<Longrightarrow> bracketFree (dropWhile P s)"
  by (induction s) auto

lemma splitOn_nonempty: "splitOn sep s \<noteq> []"
  by (induction s) (auto split: list.splits)

lemma splitOn_parts: "p \<in> set (splitOn sep s) \<Longrightarrow> set p \<subseteq> set s"
proof (induction s arbitrary: p)
  case Nil
  then show ?case by simp
next
  case (Cons c cs)
  obtain q qs where q: "splitOn sep cs = q # qs"
    using splitOn_nonempty[of sep cs] by (cases "splitOn sep cs") auto
  have IH: "set r \<subseteq> set cs" if "r \<in> set (q # qs)" for r
    using Cons.IH[of r] that q by simp
  show ?case
  proof (cases "c = sep")
    case True
    with Cons.prems q have "p = [] \<or> p \<in> set (q # qs)" by auto
    with IH show ?thesis by auto
  next
    case False
    with Cons.prems q have "p = c # q \<or> p \<in> set qs" by auto
    with IH[of q] IH[of p] show ?thesis by auto
  qed
qed

lemma bracketFree_parts: "bracketFree s \<Longrightarrow> p \<in> set (splitOn sep s) \<Longrightarrow> bracketFree p"
proof (induction s arbitrary: p)
  case Nil
  then show ?case by simp
next
  case (Cons c cs)
  show ?case
  proof (cases "c = sep")
    case True
    with Cons show ?thesis by auto
  next
    case False
    obtain q qs where q: "splitOn sep cs = q # qs"
      using splitOn_nonempty[of sep cs] by (cases "splitOn sep cs") auto
    have "set q \<subseteq> set cs" using splitOn_parts[of q sep cs] q by simp
    moreover have "bracketFree q" using Cons.IH[of q] Cons.prems(1) q by simp
    moreover have "bracketFree r" if "r \<in> set qs" for r
      using Cons.IH[of r] Cons.prems(1) q that by simp
    ultimately show ?thesis
      using False q Cons.prems by auto
  qed
qed

lemma bracketFree_append_marker: "\<not> bracketFree (q @ ''[]'')"
  by (induction q) auto

lemma bracketFree_no_marker: "bracketFree p \<Longrightarrow> \<not> endsWith p ''[]''"
proof
  assume b: "bracketFree p" and e: "endsWith p ''[]''"
  from e have "p = take (length p - 2) p @ ''[]''"
    unfolding endsWith_def by (metis append_take_drop_id length_Cons list.size(3) numeral_2_eq_2)
  with b bracketFree_append_marker[of "take (length p - 2) p"] show False by simp
qed

lemma xpathToPath_parts_no_marker:
  assumes "list_all (\<lambda>c. \<not> isLineTerminator c) xp" "p \<in> set (splitOn CHR ''.'' (xpathToPath xp))"
  shows "\<not> endsWith p ''[]''"
proof -
  have "list_all (\<lambda>c. \<not> isLineTerminator c) (dropWhile (\<lambda>c. c = CHR ''/'') xp)"
    using assms(1) unfolding list_all_iff by (meson set_dropWhileD)
  then have "bracketFree (xpathToPath xp)"
    unfolding xpathToPath_def
    by (intro bracketFree_filter bracketFree_map stripBrackets_bracketFree)
  then show ?thesis using assms(2) bracketFree_parts bracketFree_no_marker by blast
qed

lemma descendCreate_leaf_cong:
  assumes "\<And>current. leaf1 current (last parts) = leaf2 current (last parts)"
  shows "descendCreate leaf1 c parts = descendCreate leaf2 c parts"
  using assms
proof (induction leaf1 c parts rule: descendCreate.induct)
  case (1 leaf current)
  then show ?case by simp
next
  case (2 leaf current lastPart)
  then show ?case by simp
next
  case (3 leaf current p q ps)
  have l: "\<And>current. leaf current (last (q # ps)) = leaf2 current (last (q # ps))"
    using 3(3) by simp
  show ?case
    using 3(1)[OF _ _ _ l] 3(2)[OF _ _ l]
    by (auto split: sum.splits)
qed

lemma addToContent_is_replaceInContent:
  assumes "list_all (\<lambda>c. \<not> isLineTerminator c) xp"
  shows "\<not> endsWith (last (splitOn CHR ''.'' (xpathToPath xp))) ''[]''
       \<and> addToContent c xp w = replaceInContent c xp w"
proof -
  let ?parts = "splitOn CHR ''.'' (xpathToPath xp)"
  have "last ?parts \<in> set ?parts" using splitOn_nonempty by simp
  then have n: "\<not> endsWith (last ?parts) ''[]''"
    using xpathToPath_parts_no_marker[OF assms] by blast
  have "descendCreate (addLeaf w) c ?parts
        = descendCreate (\<lambda>current lastPart. attempt current (setProp current lastPart w)) c ?parts"
    by (rule descendCreate_leaf_cong) (simp add: addLeaf_def n)
  with n show ?thesis by (simp add: addToContent_def replaceInContent_def)
qed

text \<open>
  C5, at the failing input: an Add operation whose location expression ends with the
  array marker, applied to \<open>Foo\<close>, whose content holds the list \<open>comps\<close> with one entry.
  \<open>xpathToPath\<close> removes the marker together with every other bracket group, so the last
  part of the path never carries it: the value is assigned at the addressed path and the
  list under \<open>comps\<close> is not appended to. (For the bare expression \<open>comps[]\<close> the list is
  overwritten by the value; \<open>addToContent_is_replaceInContent\<close> above covers every
  expression without a line break.)
\<close>

theorem C5_array_marker_not_appended:
  "xpathToPath ''Defs/ThingDef[defName='Foo']/comps[]'' = ''Defs.ThingDef.comps''
   \<and> success (pheap (applyPatches exArrayMarkerData) 0) = Some True
   \<and> content (dheap (applyPatches exArrayMarkerData) 0)
       = Obj [(''defName'', Str ''Foo''), (''comps'', Obj [(''li'', Arr [Str ''CompA''] [])]),
              (''Defs'', Obj [(''ThingDef'', Obj [(''comps'', Str ''CompB'')])])]
   \<and> addToContent exCompsContent ''comps[]'' (Str ''CompB'')
       = (Obj [(''defName'', Str ''Foo''), (''comps'', Str ''CompB'')], None)"
  by code_simp

end
